theory Spec2Isabelle
  imports Main "HOL-Library.Word" "HOL-Library.Monad_Syntax"
begin

section \<open>Memory\<close>

text \<open>
  A block of memory is the list of its bytes. A read or a write at an index outside the
  block is undefined behaviour in C; every access function below returns \<open>None\<close> there,
  and \<open>None\<close> is propagated by the option monad, so a result \<open>None\<close> of an
  option-valued function of this section or of the next ones means: the C function
  accessed memory out of bounds.

  The source buffer of \<open>fu_rom_load_file\<close> is the list of the \<open>sz\<close> bytes that the
  stream delivered. (The C function reads them into an allocation of \<open>buffer_sz\<close> bytes;
  an index at or past \<open>sz\<close> is uninitialised heap up to \<open>buffer_sz\<close> and unallocated
  beyond, and is outside the source buffer either way.) A header's \<open>rom_data\<close> is
  the block that \<open>g_memdup\<close> allocated: exactly \<open>rom_len\<close> bytes.
\<close>

type_synonym u8 = "8 word"

definition bytes_of :: "string \<Rightarrow> u8 list" where
  "bytes_of s = map of_char s"

definition mem_read :: "u8 list \<Rightarrow> nat \<Rightarrow> u8 option" where
  "mem_read m i = (if i < length m then Some (m ! i) else None)"

definition mem_write :: "u8 list \<Rightarrow> nat \<Rightarrow> u8 \<Rightarrow> u8 list option" where
  "mem_write m i v = (if i < length m then Some (m[i := v]) else None)"

definition mem_range :: "u8 list \<Rightarrow> nat \<Rightarrow> nat \<Rightarrow> u8 list option" where
  "mem_range m off n = (if off + n \<le> length m then Some (take n (drop off m)) else None)"

text \<open>\<open>memcmp (m + off, lit, length lit) == 0\<close>: all the bytes compared must be inside \<open>m\<close>.\<close>

definition memcmp_eq :: "u8 list \<Rightarrow> nat \<Rightarrow> u8 list \<Rightarrow> bool option" where
  "memcmp_eq m off lit = map_option (\<lambda>bs. bs = lit) (mem_range m off (length lit))"

text \<open>The characters of a C string held in a list: those before the first NUL.\<close>

definition c_str :: "u8 list \<Rightarrow> u8 list" where
  "c_str s = takeWhile (\<lambda>c. c \<noteq> 0) s"

text \<open>\<open>g_strdup ((gchar *) &m[off])\<close>: reads up to and including the terminating NUL.\<close>

definition strdup_at :: "u8 list \<Rightarrow> nat \<Rightarrow> u8 list option" where
  "strdup_at m off =
     (if off \<le> length m \<and> 0 \<in> set (drop off m) then Some (c_str (drop off m)) else None)"

text \<open>\<open>((guint16) hi << 8) + lo\<close>, computed in \<open>int\<close> by the C promotion rules.\<close>

definition le16 :: "u8 \<Rightarrow> u8 \<Rightarrow> nat" where
  "le16 hi lo = unat hi * 256 + unat lo"

section \<open>Runs\<close>

text \<open>
  What a run of a function that may loop forever does: it does not return
  (\<open>Diverges\<close>), it accesses memory out of bounds (\<open>Fault\<close>), or it returns a value.
  \<open>then_do\<close> is the sequencing of two runs and \<open>of_option\<close> the run of a function
  that always returns or accesses memory out of bounds.
\<close>

datatype 'a outcome = Diverges | Fault | Ret 'a

fun then_do :: "'a outcome \<Rightarrow> ('a \<Rightarrow> 'b outcome) \<Rightarrow> 'b outcome" where
  "then_do Diverges f = Diverges"
| "then_do Fault f = Fault"
| "then_do (Ret x) f = f x"

fun of_option :: "'a option \<Rightarrow> 'a outcome" where
  "of_option None = Fault"
| "of_option (Some x) = Ret x"

section \<open>Data model\<close>

text \<open>\<open>FuRomKind\<close>, the enumeration that \<open>fu_rom_kind_to_string\<close> ranges over.\<close>

datatype FuRomKind =
  FU_ROM_KIND_UNKNOWN | FU_ROM_KIND_ATI | FU_ROM_KIND_NVIDIA | FU_ROM_KIND_INTEL | FU_ROM_KIND_PCI

text \<open>
  \<open>FuRomPciHeader\<close>. The integer fields are \<open>guint8\<close>, \<open>guint16\<close> and \<open>guint32\<close>; they are
  naturals here, each assigned from an expression over bytes whose value fits the field.
  \<open>rom_data = []\<close> stands for the NULL pointer (\<open>g_memdup\<close> of zero bytes is NULL).
\<close>

record FuRomPciHeader =
  rom_data :: "u8 list"
  rom_len :: nat
  rom_offset :: nat
  entry_point :: nat
  reserved :: "u8 list"
  cpi_ptr :: nat
  vendor_id :: nat
  device_id :: nat
  device_list_ptr :: nat
  data_len :: nat
  data_rev :: nat
  class_code :: nat
  image_len :: nat
  revision_level :: nat
  code_type :: nat
  last_image :: nat
  max_runtime_len :: nat
  config_header_ptr :: nat
  dmtf_clp_ptr :: nat

text \<open>\<open>g_new0 (FuRomPciHeader, 1)\<close>: every field zero, \<open>rom_data\<close> NULL.\<close>

definition hdr_new0 :: FuRomPciHeader where
  "hdr_new0 = \<lparr> rom_data = [], rom_len = 0, rom_offset = 0, entry_point = 0,
     reserved = replicate 18 0, cpi_ptr = 0, vendor_id = 0, device_id = 0,
     device_list_ptr = 0, data_len = 0, data_rev = 0, class_code = 0, image_len = 0,
     revision_level = 0, code_type = 0, last_image = 0, max_runtime_len = 0,
     config_header_ptr = 0, dmtf_clp_ptr = 0 \<rparr>"

section \<open>Byte search: \<open>fu_rom_pci_strstr\<close>\<close>

text \<open>
  The loop \<open>for (i = 0; i < haystack_len - needle_len; i++)\<close> with the haystack starting
  at index \<open>base\<close> of \<open>mem\<close>. The pointer \<open>&haystack[i]\<close> that the C function returns is
  the index \<open>base + i\<close> into \<open>rom_data\<close>.
\<close>

function fu_rom_pci_strstr_loop ::
  "u8 list \<Rightarrow> nat \<Rightarrow> u8 list \<Rightarrow> nat \<Rightarrow> nat \<Rightarrow> nat option option" where
  "fu_rom_pci_strstr_loop mem base needle n i =
     (if i < n then
        (case memcmp_eq mem (base + i) needle of
           None \<Rightarrow> None
         | Some True \<Rightarrow> Some (Some (base + i))
         | Some False \<Rightarrow> fu_rom_pci_strstr_loop mem base needle n (Suc i))
      else Some None)"
  by pat_completeness auto
termination
  by (relation "measure (\<lambda>(mem, base, needle, n, i). n - i)") auto

declare fu_rom_pci_strstr_loop.simps [simp del]

text \<open>
  The needle is a C string: its characters are \<open>c_str needle\<close> and \<open>strlen\<close> is their
  number. The result is \<open>Some None\<close> for NULL and \<open>Some (Some p)\<close> for a pointer to
  \<open>rom_data[p]\<close>.
\<close>

definition fu_rom_pci_strstr :: "FuRomPciHeader \<Rightarrow> u8 list \<Rightarrow> nat option option" where
  "fu_rom_pci_strstr hdr needle =
     (if c_str needle = [] then Some None
      else if rom_data hdr = [] then Some None
      else if data_len hdr > rom_len hdr then Some None
      else let haystack_len = rom_len hdr - data_len hdr;
               needle_len = length (c_str needle)
           in if needle_len > haystack_len then Some None
              else fu_rom_pci_strstr_loop (rom_data hdr) (data_len hdr) (c_str needle)
                     (haystack_len - needle_len) 0)"

section \<open>Checksum, diagnostic output and redaction\<close>

text \<open>
  \<open>fu_rom_get_hex_dump (&m[off], sz)\<close>: nothing is read when \<open>sz <= 0\<close>, the bytes
  \<open>m[off .. off + sz)\<close> otherwise. The result is the list of the bytes that the string
  returned is formatted from (empty for NULL).
\<close>

definition fu_rom_get_hex_dump :: "u8 list \<Rightarrow> nat \<Rightarrow> int \<Rightarrow> u8 list option" where
  "fu_rom_get_hex_dump m off sz = (if sz \<le> 0 then Some [] else mem_range m off (nat sz))"

text \<open>
  \<open>fu_rom_blank_serial_numbers (buffer, buffer_sz)\<close> with \<open>buffer = &mem[p]\<close>: the loop
  from index \<open>i\<close>; the result is the memory after the loop and the count returned.
\<close>

function fu_rom_blank_serial_numbers ::
  "u8 list \<Rightarrow> nat \<Rightarrow> nat \<Rightarrow> nat \<Rightarrow> (u8 list \<times> nat) option" where
  "fu_rom_blank_serial_numbers mem p buffer_sz i =
     (if i < buffer_sz then
        (case mem_read mem (p + i) of
           None \<Rightarrow> None
         | Some b \<Rightarrow>
             if b = 0xff \<or> b = 0 \<or> b = 0x0a \<or> b = 0x0d then Some (mem, i)
             else fu_rom_blank_serial_numbers (mem[p + i := 0]) p buffer_sz (Suc i))
      else Some (mem, i))"
  by pat_completeness auto
termination
  by (relation "measure (\<lambda>(mem, p, buffer_sz, i). buffer_sz - i)") auto

declare fu_rom_blank_serial_numbers.simps [simp del]

text \<open>\<open>fu_rom_pci_header_get_checksum\<close>: the \<open>guint8\<close> sum of \<open>rom_data[0 .. rom_len)\<close>.\<close>

definition fu_rom_pci_header_get_checksum :: "FuRomPciHeader \<Rightarrow> u8 option" where
  "fu_rom_pci_header_get_checksum hdr =
     map_option sum_list (mem_range (rom_data hdr) 0 (rom_len hdr))"

text \<open>
  \<open>fu_rom_pci_print_certificate_data (&mem[b - 27], sz)\<close> after \<open>buffer += 27\<close>: one
  round of the loop \<open>while (TRUE)\<close>, for the segment at \<open>off\<close>. The result is
  \<open>h.next_offset\<close>. \<open>off\<close>, \<open>next_offset\<close> and \<open>data_len\<close> are \<open>guint16\<close>; the two
  expressions assigned to \<open>data_len\<close> are computed in \<open>gssize\<close> and in \<open>int\<close> and
  reduced modulo \<open>2^16\<close>.
\<close>

definition fu_rom_pci_print_certificate_segment ::
  "u8 list \<Rightarrow> nat \<Rightarrow> int \<Rightarrow> nat \<Rightarrow> nat option" where
  "fu_rom_pci_print_certificate_segment mem b sz off = do {
     segment_str \<leftarrow> fu_rom_get_hex_dump mem (b + off) 29;
     segment_kind \<leftarrow> mem_read mem (b + off + 1);
     hi \<leftarrow> mem_read mem (b + off + 14);
     lo \<leftarrow> mem_read mem (b + off + 13);
     let next_offset = le16 hi lo;
     let data_len = (if next_offset = 0 then (sz - int off - 29 - 27) mod 65536
                     else (int next_offset - int off - 29) mod 65536);
     tmp \<leftarrow> (if segment_kind = 0x01
             then fu_rom_get_hex_dump mem (b + off + 29) data_len
             else if segment_kind = 0x02
             then fu_rom_get_hex_dump mem (b + off + 29)
                    (if data_len < 32 then data_len else 32)
             else Some []);
     Some next_offset
   }"

text \<open>
  The loop, from the segment at \<open>off\<close>. It is a partial function: \<open>None\<close> means that it
  does not return, \<open>Some None\<close> that it read memory out of bounds.
\<close>

partial_function (option) fu_rom_pci_print_certificate_loop ::
  "u8 list \<Rightarrow> nat \<Rightarrow> int \<Rightarrow> nat \<Rightarrow> unit option option" where
  "fu_rom_pci_print_certificate_loop mem b sz off =
     (case fu_rom_pci_print_certificate_segment mem b sz off of
        None \<Rightarrow> Some None
      | Some next_offset \<Rightarrow>
          if next_offset = 0x0000 then Some (Some ())
          else fu_rom_pci_print_certificate_loop mem b sz next_offset)"

text \<open>\<open>fu_rom_pci_print_certificate_data (&mem[p], sz)\<close>: the 27-byte header, then the
  segments.\<close>

definition fu_rom_pci_print_certificate_data ::
  "u8 list \<Rightarrow> nat \<Rightarrow> int \<Rightarrow> unit outcome" where
  "fu_rom_pci_print_certificate_data mem p sz =
     then_do (of_option (fu_rom_get_hex_dump mem p 27)) (\<lambda>hdr_str.
       case fu_rom_pci_print_certificate_loop mem (p + 27) sz 0 of
         None \<Rightarrow> Diverges
       | Some None \<Rightarrow> Fault
       | Some (Some u) \<Rightarrow> Ret ())"

text \<open>
  \<open>fu_rom_pci_print_header\<close>. The calls of \<open>g_debug\<close> change no state of the program;
  what the function does besides is to read: the 18 reserved bytes, up to 15 bytes at
  \<open>&rom_data[cpi_ptr + data_len]\<close>, four more bytes there and the certificate data when
  \<open>code_type\<close> is 0x70, and the bytes that the checksum is made of together with
  \<open>rom_data[image_len - 1]\<close>.
\<close>

definition fu_rom_pci_print_header :: "FuRomPciHeader \<Rightarrow> unit outcome" where
  "fu_rom_pci_print_header hdr =
     then_do (of_option (fu_rom_get_hex_dump (reserved hdr) 0 18)) (\<lambda>reserved_str.
     let buffer = cpi_ptr hdr in
     then_do (of_option
        (if image_len hdr < 0x0f
         then fu_rom_get_hex_dump (rom_data hdr) (buffer + data_len hdr) (int (image_len hdr))
         else fu_rom_get_hex_dump (rom_data hdr) (buffer + data_len hdr) 0x0f)) (\<lambda>data_str.
     then_do (of_option
        (if code_type hdr = 0x70
         then memcmp_eq (rom_data hdr) (buffer + data_len hdr) (bytes_of ''ISBN'')
         else Some False)) (\<lambda>isbn.
     then_do
        (if isbn
         then fu_rom_pci_print_certificate_data (rom_data hdr) (buffer + data_len hdr)
                (int (image_len hdr))
         else Ret ()) (\<lambda>u.
     if image_len hdr \<le> rom_len hdr \<and> image_len hdr > 0
     then then_do (of_option (fu_rom_pci_header_get_checksum hdr)) (\<lambda>chksum_check.
          then_do (of_option (mem_read (rom_data hdr) (image_len hdr - 1))) (\<lambda>b. Ret ()))
     else Ret ()))))"

text \<open>
  The body of the loop of \<open>fu_rom_find_and_blank_serial_numbers\<close> for one header, in
  two parts. \<open>blank_and_fix_checksum\<close> is the branch \<open>if (tmp != NULL)\<close> with
  \<open>tmp = &rom_data[p]\<close>, from the call of \<open>fu_rom_blank_serial_numbers\<close> to the
  statement \<open>hdr->rom_data[hdr->rom_len - 1] -= chk\<close>: its result is the header after
  that statement. \<open>hdr->rom_len - 1\<close> is \<open>guint32\<close> arithmetic and wraps when \<open>rom_len\<close>
  is 0. \<open>blank_header\<close> is the whole body: the search, that branch, and the printing
  of the header that ends it.
\<close>

definition PPID :: "u8 list" where
  "PPID = bytes_of ''PPID''"

definition blank_and_fix_checksum :: "FuRomPciHeader \<Rightarrow> nat \<Rightarrow> FuRomPciHeader option" where
  "blank_and_fix_checksum hdr p = do {
     (mem, len) \<leftarrow> fu_rom_blank_serial_numbers (rom_data hdr) p
                     (rom_len hdr - data_len hdr) 0;
     chk \<leftarrow> fu_rom_pci_header_get_checksum (hdr\<lparr>rom_data := mem\<rparr>);
     let last = (rom_len hdr + 2 ^ 32 - 1) mod 2 ^ 32;
     b \<leftarrow> mem_read mem last;
     mem' \<leftarrow> mem_write mem last (b - chk);
     Some (hdr\<lparr>rom_data := mem'\<rparr>)
   }"

definition blank_header :: "FuRomPciHeader \<Rightarrow> FuRomPciHeader outcome" where
  "blank_header hdr =
     then_do (of_option (fu_rom_pci_strstr hdr PPID)) (\<lambda>tmp.
       case tmp of
         None \<Rightarrow> Ret hdr
       | Some p \<Rightarrow>
           then_do (of_option (blank_and_fix_checksum hdr p)) (\<lambda>hdr.
           then_do (fu_rom_pci_print_header hdr) (\<lambda>u. Ret hdr)))"

section \<open>Header decoding\<close>

text \<open>
  \<open>fu_rom_pci_parse_data\<close>. The four \<open>memcmp\<close> calls read the same four bytes at
  \<open>cpi_ptr\<close>; the fields are read at \<open>cpi_ptr + 0x04 .. cpi_ptr + 0x1b\<close>. The result is
  the return value and the header after the call.
\<close>

definition fu_rom_pci_parse_data :: "FuRomPciHeader \<Rightarrow> (bool \<times> FuRomPciHeader) option" where
  "fu_rom_pci_parse_data hdr =
     (if cpi_ptr hdr = 0 then Some (False, hdr)
      else if rom_len hdr > 0 \<and> cpi_ptr hdr > rom_len hdr then Some (False, hdr)
      else if cpi_ptr hdr > rom_len hdr then Some (False, hdr)
      else do {
        sig \<leftarrow> mem_range (rom_data hdr) (cpi_ptr hdr) 4;
        if sig \<noteq> bytes_of ''PCIR'' \<and> sig \<noteq> bytes_of ''RGIS'' \<and>
           sig \<noteq> bytes_of ''NPDS'' \<and> sig \<noteq> bytes_of ''NPDE''
        then Some (False, hdr)
        else do {
          buffer \<leftarrow> mem_range (rom_data hdr) (cpi_ptr hdr) 0x1c;
          Some (True, hdr\<lparr>
            vendor_id := le16 (buffer ! 0x05) (buffer ! 0x04),
            device_id := le16 (buffer ! 0x07) (buffer ! 0x06),
            device_list_ptr := le16 (buffer ! 0x09) (buffer ! 0x08),
            data_len := le16 (buffer ! 0x0b) (buffer ! 0x0a),
            data_rev := unat (buffer ! 0x0c),
            class_code := unat (buffer ! 0x0f) * 65536 + unat (buffer ! 0x0e) * 256 +
                          unat (buffer ! 0x0d),
            image_len := le16 (buffer ! 0x11) (buffer ! 0x10) * 512,
            revision_level := le16 (buffer ! 0x13) (buffer ! 0x12),
            code_type := unat (buffer ! 0x14),
            last_image := unat (buffer ! 0x15),
            max_runtime_len := le16 (buffer ! 0x17) (buffer ! 0x16) * 512,
            config_header_ptr := le16 (buffer ! 0x19) (buffer ! 0x18),
            dmtf_clp_ptr := le16 (buffer ! 0x1b) (buffer ! 0x1a)\<rparr>)
        }
      })"

text \<open>
  \<open>fu_rom_pci_get_header (&buffer[off], sz)\<close>. The outer \<open>None\<close> is an access out of
  bounds, \<open>Some None\<close> the NULL result. When the signature is not the expected one, the
  16 bytes at \<open>&buffer[off]\<close> are read for the debug message. \<open>sz\<close> is a \<open>gssize\<close>;
  its assignment to the \<open>guint32\<close> field \<open>rom_len\<close> reduces it modulo \<open>2^32\<close>.
\<close>

definition fu_rom_pci_get_header ::
  "u8 list \<Rightarrow> nat \<Rightarrow> int \<Rightarrow> FuRomPciHeader option option" where
  "fu_rom_pci_get_header buffer off sz = do {
     sig \<leftarrow> mem_range buffer off 2;
     if sig \<noteq> [0x55, 0xaa] \<and> sig \<noteq> [0x56, 0x4e] then do {
       sig_str \<leftarrow> fu_rom_get_hex_dump buffer off 16;
       Some None
     }
     else do {
       b2 \<leftarrow> mem_read buffer (off + 0x02);
       let len = unat b2 * 512;
       let len = (if len = 0 then nat (sz mod 4294967296) else len);
       data \<leftarrow> mem_range buffer off len;
       b3 \<leftarrow> mem_read buffer (off + 0x03);
       b4 \<leftarrow> mem_read buffer (off + 0x04);
       b5 \<leftarrow> mem_read buffer (off + 0x05);
       res \<leftarrow> mem_range buffer (off + 6) 18;
       b18 \<leftarrow> mem_read buffer (off + 0x18);
       b19 \<leftarrow> mem_read buffer (off + 0x19);
       (ok, hdr) \<leftarrow> fu_rom_pci_parse_data (hdr_new0\<lparr>
          rom_len := len,
          rom_data := data,
          entry_point := unat b5 * 65536 + unat b4 * 256 + unat b3,
          reserved := res,
          cpi_ptr := le16 b19 b18\<rparr>);
       Some (Some hdr)
     }
   }"

section \<open>The header chain walker\<close>

text \<open>
  The loop at \<open>/* check it's not just NUL padding */\<close>, from index \<open>i\<close>, with
  \<open>off = hdr_sz + jump\<close>; the index \<open>hdr_sz + jump + i\<close> is \<open>guint\<close> arithmetic.
\<close>

function found_data :: "u8 list \<Rightarrow> nat \<Rightarrow> nat \<Rightarrow> bool option" where
  "found_data buffer off i =
     (if i < off then
        (case mem_read buffer ((off + i) mod 4294967296) of
           None \<Rightarrow> None
         | Some b \<Rightarrow> if b \<noteq> 0x00 then Some True else found_data buffer off (Suc i))
      else Some False)"
  by pat_completeness auto
termination
  by (relation "measure (\<lambda>(buffer, off, i). off - i)") auto

declare found_data.simps [simp del]

text \<open>The header made at \<open>"found junk data, adding fake"\<close>.\<close>

definition fake_header :: "u8 list \<Rightarrow> nat \<Rightarrow> FuRomPciHeader option" where
  "fake_header buffer off = do {
     let len = nat ((int (length buffer) - int off) mod 4294967296);
     data \<leftarrow> mem_range buffer off len;
     Some (hdr_new0\<lparr>
       vendor_id := 0x0000,
       device_id := 0x0000,
       code_type := 0x00,
       last_image := 0x80,
       rom_offset := off,
       rom_len := len,
       rom_data := data,
       image_len := len\<rparr>)
   }"

text \<open>
  The loop \<open>while (sz > hdr_sz + jump)\<close> of \<open>fu_rom_load_file\<close>, with \<open>sz\<close> the length
  of \<open>buffer\<close>. \<open>hdr_sz\<close> is a \<open>guint\<close> and \<open>jump\<close> a \<open>guint32\<close>: their sums wrap
  modulo \<open>2^32\<close>. The loop is a partial function: \<open>None\<close> means that it does not
  return. Its result is a pair: the offsets at which \<open>fu_rom_pci_get_header\<close> was
  called, in order (a ghost variable: \<open>tr\<close> is not in the source), and the array
  \<open>priv->hdrs\<close> after the loop, or \<open>None\<close> when the loop accessed memory out of bounds.
\<close>

partial_function (option) fu_rom_walk_loop ::
  "u8 list \<Rightarrow> nat \<Rightarrow> nat \<Rightarrow> FuRomPciHeader list \<Rightarrow> nat list \<Rightarrow>
     (nat list \<times> FuRomPciHeader list option) option" where
  "fu_rom_walk_loop buffer hdr_sz jump hs tr =
     (let off = (hdr_sz + jump) mod 4294967296 in
      if int (length buffer) > int off then
        (case fu_rom_pci_get_header buffer off (int (length buffer) - int hdr_sz - int jump) of
           None \<Rightarrow> Some (tr @ [off], None)
         | Some None \<Rightarrow>
             Some (tr @ [off], do {
               found \<leftarrow> found_data buffer off 0;
               if found then do {
                 hdr \<leftarrow> fake_header buffer off;
                 Some (hs @ [hdr])
               } else Some hs
             })
         | Some (Some hdr) \<Rightarrow>
             let hdr = hdr\<lparr>rom_offset := off\<rparr>;
                 hs = hs @ [hdr];
                 jump_sz = rom_len hdr;
                 jump_sz = (if jump_sz = 0 then image_len hdr else jump_sz)
             in if jump_sz = 0x0 then Some (tr @ [off], Some hs)
                else fu_rom_walk_loop buffer hdr_sz ((jump + jump_sz) mod 4294967296) hs
                       (tr @ [off]))
      else Some (tr, Some hs))"

section \<open>Version strings\<close>

text \<open>
  Each function returns \<open>Some None\<close> for NULL and \<open>Some (Some v)\<close> for the string \<open>v\<close>
  that \<open>g_strdup\<close> copied.
\<close>

definition strdup_opt :: "u8 list \<Rightarrow> nat \<Rightarrow> u8 list option option" where
  "strdup_opt m off = map_option Some (strdup_at m off)"

definition fu_rom_find_version_pci :: "FuRomPciHeader \<Rightarrow> u8 list option option" where
  "fu_rom_find_version_pci hdr = do {
     arc \<leftarrow> memcmp_eq (reserved hdr) 0 ([0, 0] @ bytes_of ''ARC'');
     if arc then do {
       str \<leftarrow> fu_rom_pci_strstr hdr (bytes_of ''BIOS: '');
       case str of
         Some p \<Rightarrow> strdup_opt (rom_data hdr) (p + 6)
       | None \<Rightarrow> Some None
     } else Some None
   }"

definition fu_rom_find_version_nvidia :: "FuRomPciHeader \<Rightarrow> u8 list option option" where
  "fu_rom_find_version_nvidia hdr = do {
     static \<leftarrow> memcmp_eq (rom_data hdr) 0x013d (bytes_of ''Version '');
     if static then strdup_opt (rom_data hdr) (0x013d + 8)
     else do {
       str \<leftarrow> fu_rom_pci_strstr hdr (bytes_of ''Version '');
       case str of
         Some p \<Rightarrow> strdup_opt (rom_data hdr) (p + 8)
       | None \<Rightarrow> do {
           str \<leftarrow> fu_rom_pci_strstr hdr (bytes_of ''Vension:'');
           case str of
             Some p \<Rightarrow> strdup_opt (rom_data hdr) (p + 8)
           | None \<Rightarrow> do {
               str \<leftarrow> fu_rom_pci_strstr hdr (bytes_of ''Version'');
               case str of
                 Some p \<Rightarrow> strdup_opt (rom_data hdr) (p + 7)
               | None \<Rightarrow> do {
                   vbios \<leftarrow> memcmp_eq (rom_data hdr) 0xfa (bytes_of ''VBIOS Ver'');
                   if vbios then strdup_opt (rom_data hdr) (0xfa + 9) else Some None
                 }
             }
         }
     }
   }"

text \<open>
  \<open>g_strsplit (s, " ", -1)\<close>, after GLib's documentation: the pieces between the
  delimiters, empty ones included; the empty string gives no piece.
\<close>

fun split_at :: "u8 \<Rightarrow> u8 list \<Rightarrow> u8 list \<Rightarrow> u8 list list" where
  "split_at d acc [] = [rev acc]"
| "split_at d acc (c # cs) =
     (if c = d then rev acc # split_at d [] cs else split_at d (c # acc) cs)"

definition g_strsplit :: "u8 list \<Rightarrow> u8 list list" where
  "g_strsplit s = (if s = [] then [] else split_at 0x20 [] s)"

definition fu_rom_find_version_intel :: "FuRomPciHeader \<Rightarrow> u8 list option option" where
  "fu_rom_find_version_intel hdr = do {
     str \<leftarrow> fu_rom_pci_strstr hdr (bytes_of ''Build Number:'');
     found \<leftarrow> (case str of
        Some p \<Rightarrow> do {
          s \<leftarrow> strdup_at (rom_data hdr) (p + 14);
          Some (find (\<lambda>tok. 0x2e \<in> set tok) (g_strsplit s))
        }
      | None \<Rightarrow> Some None);
     case found of
       Some tok \<Rightarrow> Some (Some tok)
     | None \<Rightarrow> do {
         str \<leftarrow> fu_rom_pci_strstr hdr (bytes_of ''VBIOS '');
         case str of
           Some p \<Rightarrow> strdup_opt (rom_data hdr) (p + 6)
         | None \<Rightarrow> Some None
       }
   }"

definition fu_rom_find_version_ati :: "FuRomPciHeader \<Rightarrow> u8 list option option" where
  "fu_rom_find_version_ati hdr = do {
     str \<leftarrow> fu_rom_pci_strstr hdr (bytes_of '' VER0'');
     case str of
       Some p \<Rightarrow> strdup_opt (rom_data hdr) (p + 4)
     | None \<Rightarrow> do {
         str \<leftarrow> fu_rom_pci_strstr hdr (bytes_of '' VR'');
         case str of
           Some p \<Rightarrow> strdup_opt (rom_data hdr) (p + 4)
         | None \<Rightarrow> Some None
       }
   }"

fun fu_rom_find_version :: "FuRomKind \<Rightarrow> FuRomPciHeader \<Rightarrow> u8 list option option" where
  "fu_rom_find_version FU_ROM_KIND_PCI hdr = fu_rom_find_version_pci hdr"
| "fu_rom_find_version FU_ROM_KIND_NVIDIA hdr = fu_rom_find_version_nvidia hdr"
| "fu_rom_find_version FU_ROM_KIND_INTEL hdr = fu_rom_find_version_intel hdr"
| "fu_rom_find_version FU_ROM_KIND_ATI hdr = fu_rom_find_version_ati hdr"
| "fu_rom_find_version FU_ROM_KIND_UNKNOWN hdr = Some None"

text \<open>
  \<open>g_strstrip\<close> removes the leading and trailing characters that \<open>g_ascii_isspace\<close>
  accepts; \<open>g_strdelimit (version, "\r\n ", '\0')\<close> then writes a NUL over each
  delimiter, which ends the C string at the first of them.
\<close>

definition g_ascii_isspace :: "u8 \<Rightarrow> bool" where
  "g_ascii_isspace c = (c = 0x20 \<or> c = 0x09 \<or> c = 0x0a \<or> c = 0x0c \<or> c = 0x0d)"

definition g_strstrip :: "u8 list \<Rightarrow> u8 list" where
  "g_strstrip s = rev (dropWhile g_ascii_isspace (rev (dropWhile g_ascii_isspace s)))"

definition version_delimit :: "u8 list \<Rightarrow> u8 list" where
  "version_delimit s =
     takeWhile (\<lambda>c. c \<noteq> 0x0d \<and> c \<noteq> 0x0a \<and> c \<noteq> 0x20) (g_strstrip s)"

section \<open>The ROM object\<close>

text \<open>
  \<open>FuRomPrivate\<close>. \<open>checksum_wip\<close> is the \<open>GChecksum\<close>: its state is the sequence of the
  bytes that \<open>g_checksum_update\<close> has fed to it. \<open>guid\<close> holds the vendor and model that
  are formatted into the id given to \<open>as_utils_guid_from_string\<close>. The input stream is
  part of the file model below.
\<close>

record FuRomPrivate =
  checksum_wip :: "u8 list"
  kind :: FuRomKind
  version :: "u8 list option"
  guid :: "(nat \<times> nat) option"
  vendor :: nat
  model :: nat
  hdrs :: "FuRomPciHeader list"

text \<open>\<open>fu_rom_new\<close>: the private data is zeroed, then \<open>fu_rom_init\<close> runs.\<close>

definition fu_rom_new :: FuRomPrivate where
  "fu_rom_new = \<lparr> checksum_wip = [], kind = FU_ROM_KIND_UNKNOWN, version = None,
     guid = None, vendor = 0, model = 0, hdrs = [] \<rparr>"

text \<open>
  \<open>fu_rom_get_checksum\<close>: the SHA-1 digest of the bytes fed to \<open>checksum_wip\<close>, as
  \<open>g_checksum_get_string\<close> prints it. The digest function is GLib's and is a parameter.
\<close>

definition fu_rom_get_checksum :: "(u8 list \<Rightarrow> string) \<Rightarrow> FuRomPrivate \<Rightarrow> string" where
  "fu_rom_get_checksum sha1 priv = sha1 (checksum_wip priv)"

text \<open>The errors that \<open>fu_rom_load_file\<close> sets, named after the specification:
  \<^item> \<open>AuthFailed\<close>: \<open>FWUPD_ERROR_AUTH_FAILED\<close>, the file could not be opened;
  \<^item> \<open>IoError\<close>: the \<open>GError\<close> of a failed GIO call, passed on;
  \<^item> \<open>TooSmall\<close>: \<open>FWUPD_ERROR_INVALID_FILE\<close>, "Firmware too small";
  \<^item> \<open>NotResponding\<close>: \<open>FWUPD_ERROR_INVALID_FILE\<close>, "firmware not fulfilling requests";
  \<^item> \<open>NoHeaderFound\<close>: \<open>FWUPD_ERROR_INVALID_FILE\<close>, "Failed to detect firmware header";
  \<^item> \<open>CorruptOverflow\<close>: \<open>FWUPD_ERROR_INVALID_FILE\<close>, "firmware corrupt (overflow)";
  \<^item> \<open>UnknownKind\<close>: \<open>FWUPD_ERROR_INVALID_FILE\<close>, "Failed to detect firmware kind";
  \<^item> \<open>VersionNotFound\<close>: \<open>FWUPD_ERROR_NOT_SUPPORTED\<close>, "Firmware version extractor not
    known".\<close>

datatype FuRomError =
  AuthFailed | IoError | TooSmall | NotResponding | NoHeaderFound | CorruptOverflow |
  UnknownKind | VersionNotFound

text \<open>
  A run of \<open>fu_rom_load_file\<close> that returns does so with \<open>error\<close> set (\<open>Some e\<close>,
  return value FALSE) or not (\<open>None\<close>, return value TRUE) and leaves the private data
  in the state given.
\<close>

section \<open>Loading\<close>

text \<open>
  The file: whether \<open>g_file_read\<close>, \<open>g_file_replace\<close> and \<open>g_output_stream_write\<close>
  succeed, the path, and what the successive calls of \<open>g_input_stream_read\<close> deliver
  (an error or some bytes; no bytes, or no further entry, is the end of the stream).
\<close>

datatype read_result = ReadError | ReadData "u8 list"

record GFile =
  g_file_read_ok :: bool
  g_file_get_path :: string
  g_file_replace_ok :: bool
  g_output_stream_write_ok :: bool
  stream :: "read_result list"

text \<open>\<open>g_input_stream_read (stream, buf, count)\<close>: at most \<open>count\<close> bytes; \<open>None\<close> is the
  return value -1.\<close>

fun g_input_stream_read ::
  "read_result list \<Rightarrow> nat \<Rightarrow> u8 list option \<times> read_result list" where
  "g_input_stream_read [] count = (Some [], [])"
| "g_input_stream_read (ReadError # rest) count = (None, rest)"
| "g_input_stream_read (ReadData bs # rest) count =
     (Some (take count bs),
      if length bs > count then ReadData (drop count bs) # rest else rest)"

definition buffer_sz :: nat where
  "buffer_sz = 0x400000"

text \<open>The loop \<open>while (sz < buffer_sz)\<close> that fills the buffer; \<open>sz\<close> is the length of
  \<open>buffer\<close>.\<close>

function fill_buffer ::
  "read_result list \<Rightarrow> u8 list \<Rightarrow> nat \<Rightarrow> FuRomError + u8 list" where
  "fill_buffer s buffer number_reads =
     (if length buffer < buffer_sz then
        (case g_input_stream_read s (buffer_sz - length buffer) of
           (None, s') \<Rightarrow> Inl IoError
         | (Some chunk, s') \<Rightarrow>
             if chunk = [] then Inr buffer
             else if number_reads > 16 then Inl NotResponding
             else fill_buffer s' (buffer @ chunk) (number_reads + 1))
      else Inr buffer)"
  by pat_completeness auto
termination
  by (relation "measure (\<lambda>(s, buffer, number_reads). buffer_sz - length buffer)")
     (auto simp: neq_Nil_conv)

declare fill_buffer.simps [simp del]

text \<open>
  \<open>GUINT16_FROM_BE\<close> is GLib's macro: on a little-endian host it swaps the two bytes of
  its 16-bit argument, on a big-endian host it is the identity. \<open>host_le\<close> says which
  host the program was compiled for.
\<close>

definition GUINT16_FROM_BE :: "bool \<Rightarrow> 16 word \<Rightarrow> 16 word" where
  "GUINT16_FROM_BE host_le val =
     (if host_le then or (drop_bit 8 val) (push_bit 8 val) else val)"

text \<open>\<open>/* detect optional IFR header and skip to option ROM */\<close>: the value of \<open>hdr_sz\<close>
  before the walk. The argument of the macro is the byte \<open>buffer[0x15]\<close>.\<close>

definition ifr_hdr_sz :: "bool \<Rightarrow> u8 list \<Rightarrow> nat option" where
  "ifr_hdr_sz host_le buffer = do {
     nvgi \<leftarrow> memcmp_eq buffer 0 (bytes_of ''NVGI'');
     if nvgi then do {
       b \<leftarrow> mem_read buffer 0x15;
       Some (unat (GUINT16_FROM_BE host_le (ucast b)))
     } else Some 0
   }"

text \<open>The walk of \<open>fu_rom_load_file\<close>: the IFR skip, then the loop from \<open>jump = 0\<close>.\<close>

definition fu_rom_walk ::
  "bool \<Rightarrow> u8 list \<Rightarrow> FuRomPciHeader list \<Rightarrow>
     (nat list \<times> FuRomPciHeader list option) option" where
  "fu_rom_walk host_le buffer hs =
     (case ifr_hdr_sz host_le buffer of
        None \<Rightarrow> Some ([], None)
      | Some hdr_sz \<Rightarrow> fu_rom_walk_loop buffer hdr_sz 0 hs [])"

text \<open>
  \<open>fu_rom_find_and_blank_serial_numbers\<close>: the early return, then the loop over the
  headers.
\<close>

fun blank_headers :: "FuRomPciHeader list \<Rightarrow> FuRomPciHeader list outcome" where
  "blank_headers [] = Ret []"
| "blank_headers (hdr # hs) =
     then_do (blank_header hdr) (\<lambda>hdr'.
     then_do (blank_headers hs) (\<lambda>hs'. Ret (hdr' # hs')))"

definition fu_rom_find_and_blank_serial_numbers :: "FuRomPrivate \<Rightarrow> FuRomPrivate outcome" where
  "fu_rom_find_and_blank_serial_numbers priv =
     (if kind priv = FU_ROM_KIND_PCI \<or> kind priv = FU_ROM_KIND_INTEL then Ret priv
      else then_do (blank_headers (hdrs priv)) (\<lambda>hs. Ret (priv\<lparr>hdrs := hs\<rparr>)))"

text \<open>The loop at \<open>/* print all headers */\<close>.\<close>

fun print_headers :: "FuRomPciHeader list \<Rightarrow> unit outcome" where
  "print_headers [] = Ret ()"
| "print_headers (hdr # hs) =
     then_do (fu_rom_pci_print_header hdr) (\<lambda>u. print_headers hs)"

text \<open>The loop that feeds every header to the checksum.\<close>

fun checksum_update_all :: "u8 list \<Rightarrow> FuRomPciHeader list \<Rightarrow> u8 list option" where
  "checksum_update_all wip [] = Some wip"
| "checksum_update_all wip (hdr # hs) = do {
     bytes \<leftarrow> mem_range (rom_data hdr) 0 (rom_len hdr);
     checksum_update_all (wip @ bytes) hs
   }"

text \<open>
  \<open>fu_rom_load_file\<close> from \<open>/* find first ROM header */\<close> to its end, on a non-empty
  \<open>priv->hdrs\<close>, in its parts: the chain of \<open>memcmp\<close> tests that sets \<open>priv->kind\<close>
  (\<open>k\<close> is the kind before it), the Intel header size, the version with the redaction,
  checksum and guid, and the whole. \<open>blank_ppid\<close> is
  \<open>flags & FU_ROM_LOAD_FLAG_BLANK_PPID\<close>.
\<close>

definition detect_kind :: "u8 list \<Rightarrow> nat \<Rightarrow> FuRomKind \<Rightarrow> FuRomKind option" where
  "detect_kind buffer hdr_sz k = do {
     k74 \<leftarrow> memcmp_eq buffer (hdr_sz + 0x04) (bytes_of ''K74'');
     if k74 then Some FU_ROM_KIND_NVIDIA
     else do {
       vbt \<leftarrow> memcmp_eq buffer hdr_sz (bytes_of ''$VBT'');
       if vbt then Some FU_ROM_KIND_INTEL
       else do {
         ati \<leftarrow> memcmp_eq buffer 0x30 (bytes_of '' 761295520'');
         if ati then Some FU_ROM_KIND_ATI else Some k
       }
     }
   }"

text \<open>\<open>/* detect intel header */\<close>: the value of \<open>hdr_sz\<close> after it.\<close>

definition detect_intel_hdr_sz :: "u8 list \<Rightarrow> FuRomPciHeader \<Rightarrow> nat \<Rightarrow> nat option" where
  "detect_intel_hdr_sz buffer hdr hdr_sz = do {
     intel \<leftarrow> memcmp_eq (reserved hdr) 0 (bytes_of ''00000000000'');
     if intel then do {
       hi \<leftarrow> mem_read buffer 0x1b;
       lo \<leftarrow> mem_read buffer 0x1a;
       Some (le16 hi lo)
     } else Some hdr_sz
   }"

text \<open>From \<open>/* find version string */\<close> to the end of the function.\<close>

definition fu_rom_load_version ::
  "bool \<Rightarrow> FuRomPciHeader \<Rightarrow> FuRomPrivate \<Rightarrow> (FuRomError option \<times> FuRomPrivate) outcome"
  where
  "fu_rom_load_version blank_ppid hdr priv =
     then_do (of_option (fu_rom_find_version (kind priv) hdr)) (\<lambda>v.
     let priv = priv\<lparr>version := map_option version_delimit v\<rparr> in
     then_do (if blank_ppid then fu_rom_find_and_blank_serial_numbers priv
              else Ret priv) (\<lambda>priv.
     then_do (of_option (checksum_update_all (checksum_wip priv) (hdrs priv))) (\<lambda>wip.
     let priv = priv\<lparr>checksum_wip := wip, guid := Some (vendor priv, model priv)\<rparr> in
     if version priv = None then Ret (Some VersionNotFound, priv)
     else Ret (None, priv))))"

definition fu_rom_load_headers ::
  "bool \<Rightarrow> u8 list \<Rightarrow> nat \<Rightarrow> FuRomPrivate \<Rightarrow> (FuRomError option \<times> FuRomPrivate) outcome" where
  "fu_rom_load_headers blank_ppid buffer hdr_sz priv =
     (let hdr = hdrs priv ! 0;
          priv = priv\<lparr>vendor := vendor_id hdr, model := device_id hdr,
                      kind := FU_ROM_KIND_PCI\<rparr>
      in then_do (of_option (detect_intel_hdr_sz buffer hdr hdr_sz)) (\<lambda>hdr_sz.
         if hdr_sz > length buffer then Ret (Some CorruptOverflow, priv)
         else then_do (of_option (detect_kind buffer hdr_sz (kind priv))) (\<lambda>k.
           let priv = priv\<lparr>kind := k\<rparr> in
           if kind priv = FU_ROM_KIND_UNKNOWN then Ret (Some UnknownKind, priv)
           else fu_rom_load_version blank_ppid hdr priv)))"

text \<open>
  \<open>fu_rom_load_file\<close> from the IFR detection to its end, on the filled buffer: the
  walk, the test for no header, the printing of every header, then the part above.
  (The bytes \<open>buffer[0]\<close> and \<open>buffer[1]\<close> that the message of the error for no header
  prints are among the four that the IFR test has read.)
\<close>

definition fu_rom_load_buffer ::
  "bool \<Rightarrow> bool \<Rightarrow> u8 list \<Rightarrow> FuRomPrivate \<Rightarrow> (FuRomError option \<times> FuRomPrivate) outcome"
  where
  "fu_rom_load_buffer host_le blank_ppid buffer priv =
     (case ifr_hdr_sz host_le buffer of
        None \<Rightarrow> Fault
      | Some hdr_sz \<Rightarrow>
          (case fu_rom_walk_loop buffer hdr_sz 0 (hdrs priv) [] of
             None \<Rightarrow> Diverges
           | Some (tr, None) \<Rightarrow> Fault
           | Some (tr, Some hs) \<Rightarrow>
               let priv = priv\<lparr>hdrs := hs\<rparr> in
               if length (hdrs priv) = 0 then Ret (Some NoHeaderFound, priv)
               else then_do (print_headers (hdrs priv)) (\<lambda>u.
                      fu_rom_load_headers blank_ppid buffer hdr_sz priv)))"

text \<open>
  \<open>fu_rom_load_file\<close>. The calls of \<open>g_debug\<close> change no state of the program and are
  left out; the reads that are made to build their arguments are in the functions above.
\<close>

definition fu_rom_load_file ::
  "bool \<Rightarrow> bool \<Rightarrow> GFile \<Rightarrow> FuRomPrivate \<Rightarrow> (FuRomError option \<times> FuRomPrivate) outcome"
  where
  "fu_rom_load_file host_le blank_ppid file priv =
     (if \<not> g_file_read_ok file then Ret (Some AuthFailed, priv)
      else if take 4 (g_file_get_path file) = ''/sys'' \<and> \<not> g_file_replace_ok file
      then Ret (Some IoError, priv)
      else if take 4 (g_file_get_path file) = ''/sys'' \<and> \<not> g_output_stream_write_ok file
      then Ret (Some IoError, priv)
      else (case g_input_stream_read (stream file) buffer_sz of
              (None, s) \<Rightarrow> Ret (Some IoError, priv)
            | (Some buffer, s) \<Rightarrow>
                if length buffer < 1024 then Ret (Some TooSmall, priv)
                else (case fill_buffer s buffer 0 of
                        Inl e \<Rightarrow> Ret (Some e, priv)
                      | Inr buffer \<Rightarrow> fu_rom_load_buffer host_le blank_ppid buffer priv)))"

section \<open>Auxiliary notions and example images\<close>

text \<open>The bytes at which \<open>fu_rom_blank_serial_numbers\<close> stops.\<close>

definition boundary :: "u8 \<Rightarrow> bool" where
  "boundary b = (b = 0xff \<or> b = 0 \<or> b = 0x0a \<or> b = 0x0d)"

text \<open>A regular file that delivers the given bytes in one read.\<close>

definition file_of :: "u8 list \<Rightarrow> GFile" where
  "file_of bytes = \<lparr> g_file_read_ok = True, g_file_get_path = ''/tmp/rom.bin'',
     g_file_replace_ok = True, g_output_stream_write_ok = True,
     stream = [ReadData bytes] \<rparr>"

text \<open>A 1024-byte image: one header of two blocks, no PCI data structure, all else zero.\<close>

definition rom_plain :: "u8 list" where
  "rom_plain = [0x55, 0xaa, 0x02] @ replicate 1021 0"

text \<open>The header that the decoder makes of \<open>rom_plain\<close>, and the ROM object after loading it.\<close>

definition rom_plain_hdr :: FuRomPciHeader where
  "rom_plain_hdr = hdr_new0\<lparr>rom_len := 1024, rom_data := rom_plain\<rparr>"

definition rom_plain_priv :: FuRomPrivate where
  "rom_plain_priv = \<lparr> checksum_wip = rom_plain, kind = FU_ROM_KIND_PCI, version = None,
     guid = Some (0, 0), vendor = 0, model = 0, hdrs = [rom_plain_hdr] \<rparr>"



definition rom_junk :: "u8 list" where
  "rom_junk = [0x55, 0xaa, 0x01] @ replicate 509 0 @ [0x01] @ replicate 511 0"

definition block_hdr :: FuRomPciHeader where
  "block_hdr = hdr_new0\<lparr>rom_len := 512, rom_data := [0x55, 0xaa, 0x01] @ replicate 509 0\<rparr>"

text \<open>
  The specification's \<open>hdr_sz\<close> before the walk: for a buffer that begins with
  \<open>"NVGI"\<close>, the 16-bit big-endian value of the two bytes at 0x15 and 0x16; else 0.
\<close>

definition spec_ifr_hdr_sz :: "u8 list \<Rightarrow> nat" where
  "spec_ifr_hdr_sz buffer =
     (if take 4 buffer = bytes_of ''NVGI''
      then unat (buffer ! 0x15) * 256 + unat (buffer ! 0x16) else 0)"

text \<open>A 1024-byte image with an IFR header whose bytes at 0x15 and 0x16 are 01 02.\<close>

definition rom_ifr :: "u8 list" where
  "rom_ifr = bytes_of ''NVGI'' @ replicate 17 0 @ [0x01, 0x02] @ replicate 1001 0"

text \<open>
  The specification's \<open>find\<close>: the offset, within \<open>raw[data_len .. rom_len)\<close>, of the first
  occurrence of the needle in that span; none when the needle is empty, when
  \<open>data_len > rom_len\<close>, when the needle is longer than the span, or when it does not
  occur.
\<close>

definition spec_find :: "FuRomPciHeader \<Rightarrow> u8 list \<Rightarrow> nat option" where
  "spec_find hdr needle =
     (if needle = [] \<or> rom_len hdr < data_len hdr \<or>
         rom_len hdr - data_len hdr < length needle then None
      else let span = take (rom_len hdr - data_len hdr) (drop (data_len hdr) (rom_data hdr))
           in find (\<lambda>i. take (length needle) (drop i span) = needle)
                [0 ..< length span - length needle + 1])"

text \<open>
  A 1024-byte image whose first header, of one block, ends with \<open>"PPID"\<close>, and that
  header as the decoder makes it.
\<close>

definition rom_tail :: "u8 list" where
  "rom_tail = [0x55, 0xaa, 0x01] @ replicate 505 0 @ bytes_of ''PPID'' @ replicate 512 0"

definition tail_hdr :: FuRomPciHeader where
  "tail_hdr = hdr_new0\<lparr>rom_len := 512,
     rom_data := [0x55, 0xaa, 0x01] @ replicate 505 0 @ bytes_of ''PPID''\<rparr>"

text \<open>
  Images of 1024 bytes classified as Nvidia: the first 64 bytes hold the signature, a
  size of two blocks, \<open>"K74"\<close> at offset 4 and no pointer to a PCI data structure; the
  other 960 bytes are \<open>rest\<close>. \<open>nv_hdr\<close> is the header that the decoder makes of such an
  image, and \<open>nv_priv\<close> the ROM object after loading it when no version string is found
  and the headers are \<open>hs\<close>.
\<close>

definition nv_prefix :: "u8 list" where
  "nv_prefix = [0x55, 0xaa, 0x02, 0x07] @ bytes_of ''K74'' @ replicate 57 0"

definition nv_hdr :: "u8 list \<Rightarrow> FuRomPciHeader" where
  "nv_hdr bytes = hdr_new0\<lparr>rom_len := 1024, rom_data := bytes,
     entry_point := 0x374b07, reserved := 0x34 # replicate 17 0\<rparr>"

definition nv_priv :: "FuRomPciHeader list \<Rightarrow> u8 list \<Rightarrow> FuRomPrivate" where
  "nv_priv hs wip = \<lparr> checksum_wip = wip, kind = FU_ROM_KIND_NVIDIA, version = None,
     guid = Some (0, 0), vendor = 0, model = 0, hdrs = hs \<rparr>"

text \<open>
  Nvidia images with serial-number fields after the 64-byte prefix, and the image bytes
  that the redaction pass leaves in the header: \<open>rom_serial_one\<close> has one field
  \<open>"PPID1234"\<close>; \<open>rom_serial_two\<close> has two fields, each ended by a line feed;
  in \<open>rom_serial_over\<close> no boundary byte follows \<open>"PPID"\<close> up to the end of the image.
\<close>

definition rom_serial_one :: "u8 list" where
  "rom_serial_one = nv_prefix @ bytes_of ''PPID1234'' @ replicate 952 0"

definition rom_serial_one_redacted :: "u8 list" where
  "rom_serial_one_redacted = nv_prefix @ replicate 959 0 @ [0x42]"

definition rom_serial_two :: "u8 list" where
  "rom_serial_two =
     nv_prefix @ bytes_of ''PPID1'' @ [0x0a] @ bytes_of ''PPID2'' @ [0x0a] @ replicate 948 0"

definition rom_serial_two_once :: "u8 list" where
  "rom_serial_two_once =
     nv_prefix @ replicate 5 0 @ [0x0a] @ bytes_of ''PPID2'' @ [0x0a] @ replicate 947 0 @ [0xcf]"

definition rom_serial_two_twice :: "u8 list" where
  "rom_serial_two_twice =
     nv_prefix @ replicate 5 0 @ [0x0a] @ replicate 5 0 @ [0x0a] @ replicate 947 0 @ [0x2e]"

definition rom_serial_over :: "u8 list" where
  "rom_serial_over = nv_prefix @ bytes_of ''PPID'' @ replicate 956 0x41"

text \<open>
  A header has a single serial-number field when no \<open>"PPID"\<close> that the search can find
  starts at or after the end of the bytes that the redaction of its first match clears.
\<close>

definition single_field :: "FuRomPciHeader \<Rightarrow> bool" where
  "single_field hdr =
     (\<forall>p mem len j.
        fu_rom_pci_strstr hdr PPID = Some (Some p) \<longrightarrow>
        fu_rom_blank_serial_numbers (rom_data hdr) p (rom_len hdr - data_len hdr) 0 =
          Some (mem, len) \<longrightarrow>
        p + len \<le> j \<longrightarrow> j + 4 < rom_len hdr \<longrightarrow>
        take 4 (drop j (rom_data hdr)) \<noteq> PPID)"

text \<open>
  Two more 1024- and 1536-byte images. \<open>rom_overscan\<close> has one header of two blocks and a
  third block of zeros. \<open>rom_nvgi\<close> starts with an IFR header whose byte at 0x15 is 3, so
  that a little-endian host skips 0x300 bytes; its only ROM header is at 0x300, with a
  size byte of 0 and \<open>"K74"\<close> after it; \<open>nvgi_hdr\<close> is that header as decoded, with the
  256 bytes that remain.
\<close>

definition rom_overscan :: "u8 list" where
  "rom_overscan = [0x55, 0xaa, 0x02] @ replicate 1533 0"

definition rom_nvgi :: "u8 list" where
  "rom_nvgi = bytes_of ''NVGI'' @ replicate 17 0 @ [0x03] @ replicate 746 0 @
     [0x55, 0xaa, 0x00, 0x00] @ bytes_of ''K74'' @ replicate 249 0"

definition nvgi_hdr :: FuRomPciHeader where
  "nvgi_hdr = hdr_new0\<lparr>rom_len := 256,
     rom_data := [0x55, 0xaa, 0x00, 0x00] @ bytes_of ''K74'' @ replicate 249 0,
     rom_offset := 768, entry_point := 0x374b00, reserved := 0x34 # replicate 17 0\<rparr>"

text \<open>
  A 1024-byte image classified as PCI that holds the serial-number field \<open>"PPID1234"\<close>
  at offset 64: one header of two blocks, no \<open>"K74"\<close>, no PCI data structure.
  \<open>pci_ppid_hdr\<close> is the header decoded from it, \<open>pci_ppid_priv\<close> the ROM object after
  loading it, and \<open>rom_pci_ppid_redacted\<close> the bytes that the redaction of that header
  would leave.
\<close>

definition rom_pci_ppid :: "u8 list" where
  "rom_pci_ppid = [0x55, 0xaa, 0x02] @ replicate 61 0 @ bytes_of ''PPID1234'' @ replicate 952 0"

definition rom_pci_ppid_redacted :: "u8 list" where
  "rom_pci_ppid_redacted = [0x55, 0xaa, 0x02] @ replicate 1020 0 @ [0xff]"

definition pci_ppid_hdr :: FuRomPciHeader where
  "pci_ppid_hdr = hdr_new0\<lparr>rom_len := 1024, rom_data := rom_pci_ppid\<rparr>"

definition pci_ppid_priv :: FuRomPrivate where
  "pci_ppid_priv = \<lparr> checksum_wip = rom_pci_ppid, kind = FU_ROM_KIND_PCI, version = None,
     guid = Some (0, 0), vendor = 0, model = 0, hdrs = [pci_ppid_hdr] \<rparr>"

text \<open>
  A 1024-byte image that starts with an IFR header whose byte at 0x15 is 3 and that has
  no ROM signature at 0x300, but the byte 0x01. \<open>fake_only_hdr\<close> is the fallback header
  for the 256 bytes from 0x300 on, and \<open>fake_only_priv\<close> the ROM object that holds only
  that header.
\<close>

definition rom_fake_only :: "u8 list" where
  "rom_fake_only = bytes_of ''NVGI'' @ replicate 17 0 @ [0x03] @ replicate 746 0 @
     [0x01] @ replicate 255 0"

definition fake_only_hdr :: FuRomPciHeader where
  "fake_only_hdr = hdr_new0\<lparr>last_image := 0x80, rom_offset := 768, rom_len := 256,
     rom_data := [0x01] @ replicate 255 0, image_len := 256\<rparr>"

definition fake_only_priv :: FuRomPrivate where
  "fake_only_priv = \<lparr> checksum_wip = [0x01] @ replicate 255 0, kind = FU_ROM_KIND_PCI,
     version = None, guid = Some (0, 0), vendor = 0, model = 0, hdrs = [fake_only_hdr] \<rparr>"

text \<open>
  Two 1024-byte images whose header has a PCI data structure at 0x1c or 0x20, with the
  headers decoded from them. In \<open>rom_cert_cycle\<close> the structure has \<open>code_type = 0x70\<close>
  and is followed by \<open>"ISBN"\<close>, a 27-byte header and certificate segments; the segment
  at 0 points to the segment at 0x20, which points to itself. In \<open>rom_print_over\<close> the
  structure names a length \<open>data_len = 0xffff\<close> and an image of one block.
\<close>

definition rom_cert_cycle :: "u8 list" where
  "rom_cert_cycle = [0x55, 0xaa, 0x02] @ replicate 21 0 @ [0x20, 0x00] @ replicate 6 0 @
     bytes_of ''PCIR'' @ replicate 6 0 @ [0x1c, 0x00] @ replicate 8 0 @ [0x70, 0x80] @
     replicate 6 0 @ bytes_of ''ISBN'' @ replicate 36 0 @ [0x20] @ replicate 31 0 @ [0x20] @
     replicate 891 0"

definition cert_cycle_hdr :: FuRomPciHeader where
  "cert_cycle_hdr = hdr_new0\<lparr>rom_len := 1024, rom_data := rom_cert_cycle, cpi_ptr := 0x20,
     data_len := 0x1c, code_type := 0x70, last_image := 0x80\<rparr>"


definition rom_print_over :: "u8 list" where
  "rom_print_over = [0x55, 0xaa, 0x01] @ replicate 21 0 @ [0x1c, 0x00] @ replicate 2 0 @
     bytes_of ''PCIR'' @ replicate 6 0 @ [0xff, 0xff] @ replicate 4 0 @ [0x01, 0x00] @
     replicate 978 0"

definition print_over_hdr :: FuRomPciHeader where
  "print_over_hdr = hdr_new0\<lparr>rom_len := 512,
     rom_data := [0x55, 0xaa, 0x01] @ replicate 21 0 @ [0x1c, 0x00] @ replicate 2 0 @
       bytes_of ''PCIR'' @ replicate 6 0 @ [0xff, 0xff] @ replicate 4 0 @ [0x01, 0x00] @
       replicate 466 0,
     cpi_ptr := 0x1c, data_len := 0xffff, image_len := 512\<rparr>"

section \<open>Properties of the loader\<close>

lemma read_length:
  "g_input_stream_read s c = (Some bs, s') \<Longrightarrow> length bs \<le> c"
  by (induction s c rule: g_input_stream_read.induct) auto

lemma fill_buffer_error:
  "fill_buffer s b n = Inl e \<Longrightarrow> e = IoError \<or> e = NotResponding"
proof (induction s b n rule: fill_buffer.induct)
  case (1 s buffer number_reads)
  from "1.prems" show ?case
    by (subst (asm) fill_buffer.simps)
       (auto split: if_splits prod.splits option.splits dest: "1.IH")
qed

lemma fill_buffer_length:
  "fill_buffer s b n = Inr b' \<Longrightarrow> length b \<le> buffer_sz \<Longrightarrow>
     length b \<le> length b' \<and> length b' \<le> buffer_sz"
proof (induction s b n rule: fill_buffer.induct)
  case (1 s buffer number_reads)
  show ?case
  proof (cases "length buffer < buffer_sz")
    case False
    with "1.prems" show ?thesis
      by (subst (asm) fill_buffer.simps) simp
  next
    case True
    obtain r s' where rd: "g_input_stream_read s (buffer_sz - length buffer) = (r, s')"
      by (cases "g_input_stream_read s (buffer_sz - length buffer)")
    show ?thesis
    proof (cases r)
      case None
      with "1.prems"(1) True rd show ?thesis
        by (subst (asm) fill_buffer.simps) simp
    next
      case (Some chunk)
      have len: "length chunk \<le> buffer_sz - length buffer"
        using rd Some by (auto dest: read_length)
      show ?thesis
      proof (cases "chunk = [] \<or> number_reads > 16")
        case True
        with "1.prems" \<open>length buffer < buffer_sz\<close> rd Some show ?thesis
          by (subst (asm) fill_buffer.simps) (auto split: if_splits)
      next
        case False
        with "1.prems"(1) \<open>length buffer < buffer_sz\<close> rd Some
        have rec: "fill_buffer s' (buffer @ chunk) (number_reads + 1) = Inr b'"
          by (subst (asm) fill_buffer.simps) simp
        have "length (buffer @ chunk) \<le> length b' \<and> length b' \<le> buffer_sz"
          using "1.IH"[OF \<open>length buffer < buffer_sz\<close> rd[symmetric] Some _ _ rec] False len
            \<open>length buffer < buffer_sz\<close>
          by simp
        then show ?thesis by simp
      qed
    qed
  qed
qed


lemma then_do_Ret [simp]: "then_do m f = Ret y \<longleftrightarrow> (\<exists>x. m = Ret x \<and> f x = Ret y)"
  by (cases m) auto

lemma of_option_Ret [simp]: "of_option m = Ret x \<longleftrightarrow> m = Some x"
  by (cases m) auto

lemma of_option_Fault [simp]: "of_option m = Fault \<longleftrightarrow> m = None"
  by (cases m) auto

lemma print_header_quiet:
  assumes "image_len hdr = 0" "code_type hdr \<noteq> 0x70" "18 \<le> length (reserved hdr)"
  shows "fu_rom_pci_print_header hdr = Ret ()"
  using assms
  by (simp add: fu_rom_pci_print_header_def fu_rom_get_hex_dump_def mem_range_def)

lemma print_header_whole:
  assumes "image_len hdr = rom_len hdr" "cpi_ptr hdr = 0" "data_len hdr = 0"
    and "code_type hdr \<noteq> 0x70" "18 \<le> length (reserved hdr)"
    and "length (rom_data hdr) = rom_len hdr"
  shows "fu_rom_pci_print_header hdr = Ret ()"
  using assms
  by (simp add: fu_rom_pci_print_header_def fu_rom_get_hex_dump_def mem_range_def
      fu_rom_pci_header_get_checksum_def mem_read_def)

lemma blank_headers_length: "blank_headers hs = Ret hs' \<Longrightarrow> length hs' = length hs"
  by (induction hs arbitrary: hs') auto

lemma detect_kind_known:
  "detect_kind buffer hdr_sz FU_ROM_KIND_PCI = Some k \<Longrightarrow> k \<noteq> FU_ROM_KIND_UNKNOWN"
  by (auto simp: detect_kind_def split: bind_splits if_splits)

lemma blank_pass_shape:
  "fu_rom_find_and_blank_serial_numbers priv = Ret p \<Longrightarrow>
     kind p = kind priv \<and> version p = version priv \<and> length (hdrs p) = length (hdrs priv)"
  by (auto simp: fu_rom_find_and_blank_serial_numbers_def blank_headers_length
           split: if_splits)

lemma blank_pass_skipped:
  "kind priv = FU_ROM_KIND_PCI \<or> kind priv = FU_ROM_KIND_INTEL \<Longrightarrow>
     fu_rom_find_and_blank_serial_numbers priv = Ret priv"
  by (auto simp: fu_rom_find_and_blank_serial_numbers_def)



lemma load_version_cases:
  assumes "fu_rom_load_version blank_ppid hdr priv = Ret (e, p)"
  obtains v p2 wip where
    "fu_rom_find_version (kind priv) hdr = Some v"
    "(if blank_ppid
      then fu_rom_find_and_blank_serial_numbers (priv\<lparr>version := map_option version_delimit v\<rparr>)
      else Ret (priv\<lparr>version := map_option version_delimit v\<rparr>)) = Ret p2"
    "checksum_update_all (checksum_wip p2) (hdrs p2) = Some wip"
    "p = p2\<lparr>checksum_wip := wip, guid := Some (vendor p2, model p2)\<rparr>"
    "e = (if version p2 = None then Some VersionNotFound else None)"
proof (cases "fu_rom_find_version (kind priv) hdr")
  case None
  with assms show ?thesis by (simp add: fu_rom_load_version_def Let_def)
next
  case v: (Some v)
  let ?p1 = "priv\<lparr>version := map_option version_delimit v\<rparr>"
  let ?b = "if blank_ppid then fu_rom_find_and_blank_serial_numbers ?p1 else Ret ?p1"
  from assms v obtain p2 where p2: "?b = Ret p2"
    and r: "then_do (of_option (checksum_update_all (checksum_wip p2) (hdrs p2))) (\<lambda>wip.
       if version (p2\<lparr>checksum_wip := wip, guid := Some (vendor p2, model p2)\<rparr>) = None
       then Ret (Some VersionNotFound, p2\<lparr>checksum_wip := wip, guid := Some (vendor p2, model p2)\<rparr>)
       else Ret (None, p2\<lparr>checksum_wip := wip, guid := Some (vendor p2, model p2)\<rparr>)) = Ret (e, p)"
    by (simp add: fu_rom_load_version_def Let_def) blast
  from r obtain wip where wip: "checksum_update_all (checksum_wip p2) (hdrs p2) = Some wip"
    and r2: "(if version p2 = None
       then Ret (Some VersionNotFound, p2\<lparr>checksum_wip := wip, guid := Some (vendor p2, model p2)\<rparr>)
       else Ret (None, p2\<lparr>checksum_wip := wip, guid := Some (vendor p2, model p2)\<rparr>)) = Ret (e, p)"
    by auto
  from r2 have "p = p2\<lparr>checksum_wip := wip, guid := Some (vendor p2, model p2)\<rparr>"
    "e = (if version p2 = None then Some VersionNotFound else None)"
    by (auto split: if_splits)
  with v p2 wip show ?thesis by (rule that)
qed

lemma load_version_result:
  assumes "fu_rom_load_version blank_ppid hdr priv = Ret (e, p)"
  shows "(e = None \<or> e = Some VersionNotFound) \<and> kind p = kind priv \<and>
         length (hdrs p) = length (hdrs priv)"
  using assms
proof (cases rule: load_version_cases)
  case (1 v p2 wip)
  from 1(2) have "kind p2 = kind priv \<and> length (hdrs p2) = length (hdrs priv)"
    by (auto split: if_splits dest: blank_pass_shape)
  with 1(4,5) show ?thesis by auto
qed

lemma load_version_blank_skipped:
  assumes "kind priv = FU_ROM_KIND_PCI \<or> kind priv = FU_ROM_KIND_INTEL"
  shows "fu_rom_load_version b1 hdr priv = fu_rom_load_version b2 hdr priv"
  using assms unfolding fu_rom_load_version_def Let_def
  by (cases b1; cases b2) (auto simp: blank_pass_skipped)

lemma load_headers_cases:
  assumes "fu_rom_load_headers blank_ppid buffer hdr_sz priv = Ret (e, p)"
  obtains (overflow) h where
      "detect_intel_hdr_sz buffer (hdrs priv ! 0) hdr_sz = Some h" "h > length buffer"
      "e = Some CorruptOverflow"
      "p = priv\<lparr>vendor := vendor_id (hdrs priv ! 0), model := device_id (hdrs priv ! 0),
                 kind := FU_ROM_KIND_PCI\<rparr>"
  | (version) h k where
      "detect_intel_hdr_sz buffer (hdrs priv ! 0) hdr_sz = Some h" "h \<le> length buffer"
      "detect_kind buffer h FU_ROM_KIND_PCI = Some k"
      "fu_rom_load_version blank_ppid (hdrs priv ! 0)
         (priv\<lparr>vendor := vendor_id (hdrs priv ! 0), model := device_id (hdrs priv ! 0),
               kind := k\<rparr>) = Ret (e, p)"
proof (cases "detect_intel_hdr_sz buffer (hdrs priv ! 0) hdr_sz")
  case None
  with assms show ?thesis by (simp add: fu_rom_load_headers_def Let_def)
next
  case h: (Some h)
  show ?thesis
  proof (cases "h > length buffer")
    case True
    with assms h have "e = Some CorruptOverflow"
      "p = priv\<lparr>vendor := vendor_id (hdrs priv ! 0), model := device_id (hdrs priv ! 0),
                 kind := FU_ROM_KIND_PCI\<rparr>"
      by (simp_all add: fu_rom_load_headers_def Let_def)
    with h True show ?thesis by (rule overflow)
  next
    case False
    show ?thesis
    proof (cases "detect_kind buffer h FU_ROM_KIND_PCI")
      case None
      with assms h False show ?thesis by (simp add: fu_rom_load_headers_def Let_def)
    next
      case k: (Some k)
      from detect_kind_known[OF k] have "k \<noteq> FU_ROM_KIND_UNKNOWN" .
      with assms h False k
      have "fu_rom_load_version blank_ppid (hdrs priv ! 0)
         (priv\<lparr>vendor := vendor_id (hdrs priv ! 0), model := device_id (hdrs priv ! 0),
               kind := k\<rparr>) = Ret (e, p)"
        by (simp add: fu_rom_load_headers_def Let_def)
      with h False k show ?thesis by (intro version[of h k]) simp_all
    qed
  qed
qed

lemma load_headers_result:
  assumes "fu_rom_load_headers blank_ppid buffer hdr_sz priv = Ret (e, p)"
  shows "e \<noteq> Some UnknownKind \<and> kind p \<noteq> FU_ROM_KIND_UNKNOWN \<and>
         length (hdrs p) = length (hdrs priv)"
  using assms
proof (cases rule: load_headers_cases)
  case (overflow h)
  then show ?thesis by simp
next
  case (version h k)
  from version(4) have "(e = None \<or> e = Some VersionNotFound) \<and> kind p = k \<and>
      length (hdrs p) = length (hdrs priv)"
    by (auto dest!: load_version_result)
  with detect_kind_known[OF version(3)] show ?thesis by auto
qed

lemma load_headers_blank_skipped:
  assumes "fu_rom_load_headers b1 buffer hdr_sz priv = Ret (e, p)"
    and "kind p = FU_ROM_KIND_PCI \<or> kind p = FU_ROM_KIND_INTEL"
  shows "fu_rom_load_headers b2 buffer hdr_sz priv = Ret (e, p)"
  using assms(1)
proof (cases rule: load_headers_cases)
  case (overflow h)
  then show ?thesis
    unfolding fu_rom_load_headers_def Let_def by simp
next
  case (version h k)
  from version(4) have "kind p = k" by (auto dest!: load_version_result)
  with assms(2) have "k = FU_ROM_KIND_PCI \<or> k = FU_ROM_KIND_INTEL" by simp
  then have "fu_rom_load_version b2 (hdrs priv ! 0)
         (priv\<lparr>vendor := vendor_id (hdrs priv ! 0), model := device_id (hdrs priv ! 0),
               kind := k\<rparr>) = Ret (e, p)"
    using version(4) load_version_blank_skipped[of _ b2 _ b1] by simp
  with version(1,2,3) detect_kind_known[OF version(3)] show ?thesis
    unfolding fu_rom_load_headers_def Let_def by simp
qed

lemma load_buffer_cases:
  assumes "fu_rom_load_buffer host_le blank_ppid buffer priv = Ret (e, p)"
  obtains (nothing) hdr_sz tr where
      "ifr_hdr_sz host_le buffer = Some hdr_sz"
      "fu_rom_walk_loop buffer hdr_sz 0 (hdrs priv) [] = Some (tr, Some [])"
      "e = Some NoHeaderFound" "p = priv\<lparr>hdrs := []\<rparr>"
  | (headers) hdr_sz tr hs where
      "ifr_hdr_sz host_le buffer = Some hdr_sz"
      "fu_rom_walk_loop buffer hdr_sz 0 (hdrs priv) [] = Some (tr, Some hs)"
      "hs \<noteq> []" "print_headers hs = Ret ()"
      "fu_rom_load_headers blank_ppid buffer hdr_sz (priv\<lparr>hdrs := hs\<rparr>) = Ret (e, p)"
  using assms unfolding fu_rom_load_buffer_def Let_def
  by (auto split: option.splits prod.splits if_splits)

lemma load_file_cases:
  assumes "fu_rom_load_file host_le blank_ppid file priv = Ret (e, p)"
  obtains (early) "p = priv"
      "e = Some AuthFailed \<or> e = Some IoError \<or> e = Some TooSmall \<or> e = Some NotResponding"
      "\<And>b. fu_rom_load_file host_le b file priv = Ret (e, p)"
  | (buffer) buffer where
      "\<And>b. fu_rom_load_file host_le b file priv = fu_rom_load_buffer host_le b buffer priv"
      "1024 \<le> length buffer" "length buffer \<le> buffer_sz"
proof -
  show ?thesis
  proof (cases "g_file_read_ok file \<and> (take 4 (g_file_get_path file) = ''/sys'' \<longrightarrow>
              g_file_replace_ok file \<and> g_output_stream_write_ok file)")
    case False
    then have "\<And>b. fu_rom_load_file host_le b file priv =
        Ret (if \<not> g_file_read_ok file then Some AuthFailed else Some IoError, priv)"
      by (auto simp: fu_rom_load_file_def)
    with assms show ?thesis using early by (auto split: if_splits)
  next
    case ok: True
    obtain r s where rd: "g_input_stream_read (stream file) buffer_sz = (r, s)"
      by (cases "g_input_stream_read (stream file) buffer_sz")
    show ?thesis
    proof (cases r)
      case None
      with ok rd have "\<And>b. fu_rom_load_file host_le b file priv = Ret (Some IoError, priv)"
        by (auto simp: fu_rom_load_file_def)
      with assms show ?thesis using early by auto
    next
      case (Some b0)
      have b0: "length b0 \<le> buffer_sz" using rd Some by (auto dest: read_length)
      show ?thesis
      proof (cases "length b0 < 1024")
        case True
        with ok rd Some
        have "\<And>b. fu_rom_load_file host_le b file priv = Ret (Some TooSmall, priv)"
          by (auto simp: fu_rom_load_file_def)
        with assms show ?thesis using early by auto
      next
        case big: False
        show ?thesis
        proof (cases "fill_buffer s b0 0")
          case (Inl err)
          with ok rd Some big
          have "\<And>b. fu_rom_load_file host_le b file priv = Ret (Some err, priv)"
            by (auto simp: fu_rom_load_file_def)
          with assms fill_buffer_error[OF Inl] show ?thesis using early by auto
        next
          case (Inr buffer)
          have eq: "\<And>b. fu_rom_load_file host_le b file priv =
              fu_rom_load_buffer host_le b buffer priv"
            using ok rd Some big Inr by (auto simp: fu_rom_load_file_def)
          have "length b0 \<le> length buffer \<and> length buffer \<le> buffer_sz"
            using fill_buffer_length[OF Inr b0] .
          with big eq show ?thesis using buffer[of buffer] by simp
        qed
      qed
    qed
  qed
qed

section \<open>Properties of the walker\<close>

lemma replicate_eq_Cons:
  "(replicate n x = y # ys) = (0 < n \<and> x = y \<and> replicate (n - 1) x = ys)"
  by (cases n) auto

lemma found_data_zero:
  assumes "2 * off \<le> length buffer" "length buffer \<le> 4294967296"
    and "\<forall>j. i \<le> j \<and> j < off \<longrightarrow> buffer ! (off + j) = 0"
  shows "found_data buffer off i = Some False"
  using assms
proof (induction buffer off i rule: found_data.induct)
  case (1 buffer off i)
  show ?case
  proof (cases "i < off")
    case False
    then show ?thesis by (subst found_data.simps) simp
  next
    case True
    with "1.prems" have rd: "mem_read buffer ((off + i) mod 4294967296) = Some 0"
      by (simp add: mem_read_def)
    have "found_data buffer off (Suc i) = Some False"
      using "1.IH"[OF True rd] "1.prems" by simp
    with True rd show ?thesis by (subst found_data.simps) simp
  qed
qed

lemma found_data_nonzero:
  assumes "i \<le> k" "k < off" "off + k < length buffer" "length buffer \<le> 4294967296"
    and "\<forall>j. i \<le> j \<and> j < k \<longrightarrow> buffer ! (off + j) = 0"
    and "buffer ! (off + k) \<noteq> 0"
  shows "found_data buffer off i = Some True"
  using assms
proof (induction buffer off i rule: found_data.induct)
  case (1 buffer off i)
  have lt: "i < off" using "1.prems" by simp
  show ?case
  proof (cases "i = k")
    case True
    with "1.prems" have rd: "mem_read buffer ((off + i) mod 4294967296) = Some (buffer ! (off + k))"
      by (simp add: mem_read_def)
    with lt "1.prems"(6) show ?thesis by (subst found_data.simps) simp
  next
    case False
    with "1.prems" have ik: "i < k" by simp
    with "1.prems" have rd: "mem_read buffer ((off + i) mod 4294967296) = Some 0"
      by (simp add: mem_read_def)
    have "found_data buffer off (Suc i) = Some True"
      using "1.IH"[OF lt rd] "1.prems" ik by simp
    with lt rd show ?thesis by (subst found_data.simps) simp
  qed
qed

lemma found_data_overrun:
  assumes "i < off" "off + i \<le> length buffer" "length buffer < 2 * off"
    "2 * off \<le> 4294967296"
    and "\<forall>j. i \<le> j \<and> off + j < length buffer \<longrightarrow> buffer ! (off + j) = 0"
  shows "found_data buffer off i = None"
  using assms
proof (induction buffer off i rule: found_data.induct)
  case (1 buffer off i)
  show ?case
  proof (cases "off + i < length buffer")
    case False
    with "1.prems" have rd: "mem_read buffer ((off + i) mod 4294967296) = None"
      by (simp add: mem_read_def)
    with "1.prems"(1) show ?thesis by (subst found_data.simps) simp
  next
    case True
    with "1.prems" have rd: "mem_read buffer ((off + i) mod 4294967296) = Some 0"
      by (simp add: mem_read_def)
    have "found_data buffer off (Suc i) = None"
      using "1.IH"[OF "1.prems"(1) rd] "1.prems" True by simp
    with "1.prems"(1) rd show ?thesis by (subst found_data.simps) simp
  qed
qed


lemma parse_data_image_len:
  assumes "fu_rom_pci_parse_data hdr = Some (ok, hdr')" "image_len hdr = 0"
  shows "rom_len hdr' = rom_len hdr \<and> rom_data hdr' = rom_data hdr \<and>
         image_len hdr' < 33554432"
proof -
  have le: "\<And>a b. le16 a b * 512 < 33554432"
  proof -
    fix a b :: u8
    have "unat a < 256" "unat b < 256" using unsigned_less[of a, where 'a=nat] unsigned_less[of b, where 'a=nat] by simp_all
    then show "le16 a b * 512 < 33554432" by (simp add: le16_def)
  qed
  from assms show ?thesis
    unfolding fu_rom_pci_parse_data_def
    by (auto split: if_splits bind_splits simp: le)
qed

lemma get_header_bounds:
  assumes "fu_rom_pci_get_header buffer off sz = Some (Some hdr)"
  shows "off + rom_len hdr \<le> length buffer \<and>
         rom_data hdr = take (rom_len hdr) (drop off buffer) \<and>
         image_len hdr < 33554432"
  using assms unfolding fu_rom_pci_get_header_def Let_def
  by (auto split: bind_splits if_splits dest!: parse_data_image_len
           simp: hdr_new0_def mem_range_def)


lemma walk_loop_total:
  assumes "length buffer \<le> buffer_sz" "hdr_sz + jump < 4294967296"
  shows "\<exists>tr' r. fu_rom_walk_loop buffer hdr_sz jump hs tr = Some (tr @ tr', r) \<and>
           sorted_wrt (<) tr' \<and> (\<forall>off\<in>set tr'. hdr_sz + jump \<le> off \<and> off < length buffer)"
  using assms(2)
proof (induction "length buffer - (hdr_sz + jump)" arbitrary: jump hs tr rule: less_induct)
  case less
  define off where "off = hdr_sz + jump"
  have offm: "(hdr_sz + jump) mod 4294967296 = off"
    using less.prems by (simp add: off_def)
  show ?case
  proof (cases "off < length buffer")
    case False
    then have "fu_rom_walk_loop buffer hdr_sz jump hs tr = Some (tr, Some hs)"
      by (subst fu_rom_walk_loop.simps) (simp add: offm)
    then show ?thesis by simp
  next
    case inside: True
    let ?g = "fu_rom_pci_get_header buffer off (int (length buffer) - int hdr_sz - int jump)"
    have one: "\<And>r. fu_rom_walk_loop buffer hdr_sz jump hs tr = Some (tr @ [off], r) \<Longrightarrow> ?thesis"
      using inside by (auto simp: off_def)
    show ?thesis
    proof (cases ?g)
      case None
      with inside show ?thesis
        by (intro one) (subst fu_rom_walk_loop.simps, simp add: offm)
    next
      case (Some g)
      show ?thesis
      proof (cases g)
        case None
        with Some inside show ?thesis
          by (intro one) (subst fu_rom_walk_loop.simps, simp add: offm)
      next
        case (Some hdr)
        note g = \<open>?g = Some g\<close>[unfolded Some]
        define jump_sz where
          "jump_sz = (if rom_len hdr = 0 then image_len hdr else rom_len hdr)"
        show ?thesis
        proof (cases "jump_sz = 0")
          case True
          then have z: "rom_len hdr = 0" "image_len hdr = 0"
            by (auto simp: jump_sz_def split: if_splits)
          have "fu_rom_walk_loop buffer hdr_sz jump hs tr =
              Some (tr @ [off], Some (hs @ [hdr\<lparr>rom_offset := off\<rparr>]))"
            using g inside z by (subst fu_rom_walk_loop.simps) (simp add: offm Let_def)
          then show ?thesis by (rule one)
        next
          case False
          from get_header_bounds[OF g] assms(1)
          have bound: "jump_sz < 33554432 + 4194304"
            by (auto simp: jump_sz_def buffer_sz_def)
          from inside assms(1) have offb: "off < 4194304" by (simp add: buffer_sz_def)
          then have jm: "(jump + jump_sz) mod 4294967296 = jump + jump_sz"
            using bound by (simp add: off_def)
          have rec: "fu_rom_walk_loop buffer hdr_sz jump hs tr =
              fu_rom_walk_loop buffer hdr_sz (jump + jump_sz)
                (hs @ [hdr\<lparr>rom_offset := off\<rparr>]) (tr @ [off])"
          proof (cases "rom_len hdr = 0")
            case True
            with False have "jump_sz = image_len hdr" "image_len hdr \<noteq> 0"
              by (simp_all add: jump_sz_def)
            with g inside True jm show ?thesis
              by (subst fu_rom_walk_loop.simps) (simp add: offm Let_def)
          next
            case nz: False
            then have "jump_sz = rom_len hdr" by (simp add: jump_sz_def)
            with g inside nz jm show ?thesis
              by (subst fu_rom_walk_loop.simps) (simp add: offm Let_def)
          qed
          have "\<exists>tr' r. fu_rom_walk_loop buffer hdr_sz (jump + jump_sz)
                (hs @ [hdr\<lparr>rom_offset := off\<rparr>]) (tr @ [off]) = Some ((tr @ [off]) @ tr', r) \<and>
              sorted_wrt (<) tr' \<and>
              (\<forall>x\<in>set tr'. hdr_sz + (jump + jump_sz) \<le> x \<and> x < length buffer)"
            using False inside offb bound
            by (intro less.hyps) (auto simp: off_def)
          then obtain tr' r where
            r: "fu_rom_walk_loop buffer hdr_sz jump hs tr = Some (tr @ off # tr', r)"
            and srt: "sorted_wrt (<) tr'"
            and rng: "\<forall>x\<in>set tr'. hdr_sz + (jump + jump_sz) \<le> x \<and> x < length buffer"
            using rec by auto
          have "sorted_wrt (<) (off # tr')"
            using srt rng False by (auto simp: off_def)
          moreover have "\<forall>x\<in>set (off # tr'). hdr_sz + jump \<le> x \<and> x < length buffer"
            using rng inside by (auto simp: off_def)
          ultimately show ?thesis using r by blast
        qed
      qed
    qed
  qed
qed

lemma ifr_hdr_sz_bound: "ifr_hdr_sz host_le buffer = Some hdr_sz \<Longrightarrow> hdr_sz < 65536"
  using unsigned_less[where 'a=nat and 'b=16]
  by (auto simp: ifr_hdr_sz_def split: bind_splits if_splits)

section \<open>Properties of the search and of the redaction\<close>

lemma window_neq:
  assumes "needle \<noteq> []" "j < length mem" "mem ! j \<noteq> hd needle"
  shows "take (length needle) (drop j mem) \<noteq> needle"
proof
  assume eq: "take (length needle) (drop j mem) = needle"
  from assms(2) have "drop j mem = mem ! j # drop (Suc j) mem"
    by (simp add: Cons_nth_drop_Suc)
  with eq assms(1) have "hd needle = mem ! j"
    by (cases needle) auto
  with assms(3) show False by simp
qed

lemma strstr_loop_first:
  assumes "i \<le> k" "k < n" "base + k + length needle \<le> length mem"
    and "take (length needle) (drop (base + k) mem) = needle"
    and "\<forall>j. i \<le> j \<and> j < k \<longrightarrow> take (length needle) (drop (base + j) mem) \<noteq> needle"
  shows "fu_rom_pci_strstr_loop mem base needle n i = Some (Some (base + k))"
  using assms
proof (induction mem base needle n i rule: fu_rom_pci_strstr_loop.induct)
  case (1 mem base needle n i)
  have lt: "i < n" using "1.prems" by simp
  show ?case
  proof (cases "i = k")
    case True
    with "1.prems" have "memcmp_eq mem (base + i) needle = Some True"
      by (simp add: memcmp_eq_def mem_range_def)
    with lt True show ?thesis by (subst fu_rom_pci_strstr_loop.simps) simp
  next
    case False
    with "1.prems" have ik: "i < k" by simp
    with "1.prems" have cmp: "memcmp_eq mem (base + i) needle = Some False"
      by (simp add: memcmp_eq_def mem_range_def)
    have "fu_rom_pci_strstr_loop mem base needle n (Suc i) = Some (Some (base + k))"
      using "1.IH"[OF lt cmp] "1.prems" ik by simp
    with lt cmp show ?thesis by (subst fu_rom_pci_strstr_loop.simps) simp
  qed
qed

lemma strstr_loop_none:
  assumes "base + n + length needle \<le> Suc (length mem)"
    and "\<forall>j. i \<le> j \<and> j < n \<longrightarrow> take (length needle) (drop (base + j) mem) \<noteq> needle"
  shows "fu_rom_pci_strstr_loop mem base needle n i = Some None"
  using assms
proof (induction mem base needle n i rule: fu_rom_pci_strstr_loop.induct)
  case (1 mem base needle n i)
  show ?case
  proof (cases "i < n")
    case False
    then show ?thesis by (subst fu_rom_pci_strstr_loop.simps) simp
  next
    case True
    with "1.prems" have cmp: "memcmp_eq mem (base + i) needle = Some False"
      by (simp add: memcmp_eq_def mem_range_def)
    have "fu_rom_pci_strstr_loop mem base needle n (Suc i) = Some None"
      using "1.IH"[OF True cmp] "1.prems" by simp
    with True cmp show ?thesis by (subst fu_rom_pci_strstr_loop.simps) simp
  qed
qed

lemma strstr_loop_SomeD:
  assumes "fu_rom_pci_strstr_loop mem base needle n i = Some (Some q)"
  shows "\<exists>k. q = base + k \<and> i \<le> k \<and> k < n \<and> base + k + length needle \<le> length mem \<and>
           take (length needle) (drop (base + k) mem) = needle \<and>
           (\<forall>j. i \<le> j \<and> j < k \<longrightarrow> take (length needle) (drop (base + j) mem) \<noteq> needle)"
  using assms
proof (induction mem base needle n i rule: fu_rom_pci_strstr_loop.induct)
  case (1 mem base needle n i)
  from "1.prems" have lt: "i < n"
    by (subst (asm) fu_rom_pci_strstr_loop.simps) (simp split: if_splits)
  from "1.prems" lt obtain c where cmp: "memcmp_eq mem (base + i) needle = Some c"
    by (subst (asm) fu_rom_pci_strstr_loop.simps) (auto split: option.splits)
  show ?case
  proof (cases c)
    case True
    with "1.prems" lt cmp have "q = base + i"
      by (subst (asm) fu_rom_pci_strstr_loop.simps) simp
    moreover from cmp True have "base + i + length needle \<le> length mem \<and>
        take (length needle) (drop (base + i) mem) = needle"
      by (auto simp: memcmp_eq_def mem_range_def split: if_splits)
    ultimately show ?thesis using lt by auto
  next
    case False
    with "1.prems" lt cmp
    have "fu_rom_pci_strstr_loop mem base needle n (Suc i) = Some (Some q)"
      by (subst (asm) fu_rom_pci_strstr_loop.simps) simp
    from "1.IH"[OF lt cmp _ this] False obtain k where
      k: "q = base + k" "Suc i \<le> k" "k < n" "base + k + length needle \<le> length mem"
        "take (length needle) (drop (base + k) mem) = needle"
        "\<forall>j. Suc i \<le> j \<and> j < k \<longrightarrow> take (length needle) (drop (base + j) mem) \<noteq> needle"
      by auto
    from cmp False have "take (length needle) (drop (base + i) mem) \<noteq> needle"
      by (auto simp: memcmp_eq_def mem_range_def split: if_splits)
    with k(6) have "\<forall>j. i \<le> j \<and> j < k \<longrightarrow> take (length needle) (drop (base + j) mem) \<noteq> needle"
      by (metis Suc_leI le_neq_implies_less)
    with k show ?thesis by auto
  qed
qed

lemma blank_loop_result:
  assumes "fu_rom_blank_serial_numbers mem p sz i = Some (mem', len)"
  shows "length mem' = length mem \<and> i \<le> max i len \<and> (i \<le> sz \<longrightarrow> i \<le> len \<and> len \<le> sz) \<and>
         (\<forall>x. mem' ! x = (if p + i \<le> x \<and> x < p + len then 0 else mem ! x))"
  using assms
proof (induction mem p sz i rule: fu_rom_blank_serial_numbers.induct)
  case (1 mem p sz i)
  show ?case
  proof (cases "i < sz")
    case False
    with "1.prems" show ?thesis
      by (subst (asm) fu_rom_blank_serial_numbers.simps) auto
  next
    case True
    with "1.prems" obtain b where rd: "mem_read mem (p + i) = Some b"
      by (subst (asm) fu_rom_blank_serial_numbers.simps) (auto split: option.splits)
    show ?thesis
    proof (cases "b = 0xff \<or> b = 0 \<or> b = 0x0a \<or> b = 0x0d")
      case stop: True
      with "1.prems" True rd have "mem' = mem \<and> len = i"
        by (subst (asm) fu_rom_blank_serial_numbers.simps) auto
      with True show ?thesis by auto
    next
      case go: False
      with "1.prems" True rd
      have rec: "fu_rom_blank_serial_numbers (mem[p + i := 0]) p sz (Suc i) = Some (mem', len)"
        by (subst (asm) fu_rom_blank_serial_numbers.simps) auto
      from "1.IH"[OF True rd go rec] True
      have ih: "length mem' = length mem" "Suc i \<le> len" "len \<le> sz"
        "\<And>x. mem' ! x = (if p + Suc i \<le> x \<and> x < p + len then 0 else mem[p + i := 0] ! x)"
        by auto
      from rd have inb: "p + i < length mem" by (auto simp: mem_read_def split: if_splits)
      have "\<And>x. mem' ! x = (if p + i \<le> x \<and> x < p + len then 0 else mem ! x)"
        using ih(2) inb by (auto simp: ih(4) nth_list_update)
      with ih True show ?thesis by auto
    qed
  qed
qed


lemma blank_loop_stop:
  assumes "i \<le> k" "k < sz" "p + k < length mem" "boundary (mem ! (p + k))"
    and "\<forall>j. i \<le> j \<and> j < k \<longrightarrow> \<not> boundary (mem ! (p + j))"
  shows "\<exists>mem'. fu_rom_blank_serial_numbers mem p sz i = Some (mem', k)"
  using assms
proof (induction mem p sz i rule: fu_rom_blank_serial_numbers.induct)
  case (1 mem p sz i)
  have lt: "i < sz" using "1.prems" by simp
  have rd: "mem_read mem (p + i) = Some (mem ! (p + i))"
    using "1.prems" by (simp add: mem_read_def)
  show ?case
  proof (cases "i = k")
    case True
    with "1.prems"(4) lt rd show ?thesis
      by (subst fu_rom_blank_serial_numbers.simps) (simp add: boundary_def)
  next
    case False
    with "1.prems" have ik: "i < k" by simp
    with "1.prems" have nb: "\<not> boundary (mem ! (p + i))" by simp
    then have nb': "\<not> (mem ! (p + i) = 0xff \<or> mem ! (p + i) = 0 \<or> mem ! (p + i) = 0x0a \<or>
        mem ! (p + i) = 0x0d)"
      by (simp add: boundary_def)
    have "\<exists>mem'. fu_rom_blank_serial_numbers (mem[p + i := 0]) p sz (Suc i) = Some (mem', k)"
      using "1.prems" ik by (intro "1.IH"[OF lt rd nb']) auto
    with lt rd nb' show ?thesis
      by (subst fu_rom_blank_serial_numbers.simps) simp
  qed
qed

lemma blank_loop_overrun:
  assumes "length mem < p + sz" "p + i \<le> length mem"
    and "\<forall>j. i \<le> j \<and> p + j < length mem \<longrightarrow> \<not> boundary (mem ! (p + j))"
  shows "fu_rom_blank_serial_numbers mem p sz i = None"
  using assms
proof (induction mem p sz i rule: fu_rom_blank_serial_numbers.induct)
  case (1 mem p sz i)
  have lt: "i < sz" using "1.prems" by simp
  show ?case
  proof (cases "p + i < length mem")
    case False
    then have "mem_read mem (p + i) = None" by (simp add: mem_read_def)
    with lt show ?thesis by (subst fu_rom_blank_serial_numbers.simps) simp
  next
    case True
    then have rd: "mem_read mem (p + i) = Some (mem ! (p + i))" by (simp add: mem_read_def)
    from "1.prems" True have nb': "\<not> (mem ! (p + i) = 0xff \<or> mem ! (p + i) = 0 \<or>
        mem ! (p + i) = 0x0a \<or> mem ! (p + i) = 0x0d)"
      by (simp add: boundary_def)
    have "fu_rom_blank_serial_numbers (mem[p + i := 0]) p sz (Suc i) = None"
      using "1.prems" True by (intro "1.IH"[OF lt rd nb']) auto
    with lt rd nb' show ?thesis
      by (subst fu_rom_blank_serial_numbers.simps) simp
  qed
qed

lemma sum_list_update_group:
  fixes xs :: "'a::ab_group_add list"
  shows "k < length xs \<Longrightarrow> sum_list (xs[k := v]) = sum_list xs - xs ! k + v"
  by (induction xs arbitrary: k) (auto split: nat.splits)

lemma c_str_PPID: "c_str PPID = PPID" "length PPID = 4" "PPID \<noteq> []" "hd PPID = 0x50"
  by (simp_all add: c_str_def PPID_def bytes_of_def)

lemma strstr_SomeD:
  assumes "fu_rom_pci_strstr hdr needle = Some (Some q)"
  shows "data_len hdr \<le> q \<and> q + length (c_str needle) < rom_len hdr \<and>
         q + length (c_str needle) \<le> length (rom_data hdr) \<and>
         take (length (c_str needle)) (drop q (rom_data hdr)) = c_str needle \<and>
         (\<forall>j. data_len hdr \<le> j \<and> j < q \<longrightarrow>
            take (length (c_str needle)) (drop j (rom_data hdr)) \<noteq> c_str needle)"
proof -
  from assms have
    loop: "fu_rom_pci_strstr_loop (rom_data hdr) (data_len hdr) (c_str needle)
        (rom_len hdr - data_len hdr - length (c_str needle)) 0 = Some (Some q)"
    and le: "data_len hdr \<le> rom_len hdr" "length (c_str needle) \<le> rom_len hdr - data_len hdr"
    by (auto simp: fu_rom_pci_strstr_def Let_def split: if_splits)
  from strstr_loop_SomeD[OF loop] obtain k where
    k: "q = data_len hdr + k" "k < rom_len hdr - data_len hdr - length (c_str needle)"
      "data_len hdr + k + length (c_str needle) \<le> length (rom_data hdr)"
      "take (length (c_str needle)) (drop (data_len hdr + k) (rom_data hdr)) = c_str needle"
      "\<forall>j. j < k \<longrightarrow>
         take (length (c_str needle)) (drop (data_len hdr + j) (rom_data hdr)) \<noteq> c_str needle"
    by auto
  have "\<forall>j. data_len hdr \<le> j \<and> j < q \<longrightarrow>
      take (length (c_str needle)) (drop j (rom_data hdr)) \<noteq> c_str needle"
  proof (intro allI impI)
    fix j assume "data_len hdr \<le> j \<and> j < q"
    then have "j - data_len hdr < k" "data_len hdr + (j - data_len hdr) = j"
      using k(1) by auto
    with k(5) show "take (length (c_str needle)) (drop j (rom_data hdr)) \<noteq> c_str needle"
      by metis
  qed
  with k le show ?thesis by auto
qed

lemma last_index:
  assumes "0 < (n::nat)" "n < 4294967296"
  shows "(n + 4294967296 - 1) mod 4294967296 = n - 1"
proof -
  from assms(1) have "n + 4294967296 - 1 = (n - 1) + 4294967296" by simp
  then have "(n + 4294967296 - 1) mod 4294967296 = (n - 1) mod 4294967296"
    by (simp only: mod_add_self2)
  with assms(2) show ?thesis by simp
qed

lemma blank_and_fix_checksum_cases:
  assumes "blank_and_fix_checksum hdr p = Some hdr'"
  obtains mem len chk where
      "fu_rom_blank_serial_numbers (rom_data hdr) p (rom_len hdr - data_len hdr) 0 = Some (mem, len)"
      "fu_rom_pci_header_get_checksum (hdr\<lparr>rom_data := mem\<rparr>) = Some chk"
      "(rom_len hdr + 4294967296 - 1) mod 4294967296 < length mem"
      "hdr' = hdr\<lparr>rom_data := mem[(rom_len hdr + 4294967296 - 1) mod 4294967296 :=
                 mem ! ((rom_len hdr + 4294967296 - 1) mod 4294967296) - chk]\<rparr>"
  using assms unfolding blank_and_fix_checksum_def Let_def
  by (auto split: bind_splits if_splits simp: mem_read_def mem_write_def)

lemma blank_header_cases:
  assumes "blank_header hdr = Ret hdr'"
  obtains (nomatch) "fu_rom_pci_strstr hdr PPID = Some None" "hdr' = hdr"
  | (match) p where
      "fu_rom_pci_strstr hdr PPID = Some (Some p)"
      "blank_and_fix_checksum hdr p = Some hdr'"
      "fu_rom_pci_print_header hdr' = Ret ()"
proof (cases "fu_rom_pci_strstr hdr PPID")
  case None
  with assms show ?thesis by (simp add: blank_header_def)
next
  case (Some tmp)
  show ?thesis
  proof (cases tmp)
    case None
    with assms Some show ?thesis by (intro nomatch) (simp_all add: blank_header_def)
  next
    case p: (Some p)
    with assms Some show ?thesis by (intro match[of p]) (auto simp: blank_header_def)
  qed
qed

section \<open>Evaluation of the walker and of the loader\<close>

lemmas mem_defs = mem_range_def mem_read_def memcmp_eq_def bytes_of_def replicate_eq_Cons nth_append

lemma load_file_of:
  assumes "1024 \<le> length bytes" "length bytes \<le> buffer_sz"
  shows "fu_rom_load_file host_le b (file_of bytes) priv = fu_rom_load_buffer host_le b bytes priv"
proof -
  have "fill_buffer [] bytes 0 = Inr bytes"
    by (subst fill_buffer.simps) simp
  with assms show ?thesis
    by (simp add: fu_rom_load_file_def file_of_def)
qed

lemma walk_loop_exit:
  assumes "\<not> (hdr_sz + jump) mod 4294967296 < length buffer"
  shows "fu_rom_walk_loop buffer hdr_sz jump hs tr = Some (tr, Some hs)"
  using assms by (subst fu_rom_walk_loop.simps) simp

lemma walk_loop_next:
  assumes "(hdr_sz + jump) mod 4294967296 = off" "off < length buffer"
    and "fu_rom_pci_get_header buffer off (int (length buffer) - int hdr_sz - int jump) =
           Some (Some hdr)"
    and "(if rom_len hdr = 0 then image_len hdr else rom_len hdr) = jump_sz" "jump_sz \<noteq> 0"
  shows "fu_rom_walk_loop buffer hdr_sz jump hs tr =
           fu_rom_walk_loop buffer hdr_sz ((jump + jump_sz) mod 4294967296)
             (hs @ [hdr\<lparr>rom_offset := off\<rparr>]) (tr @ [off])"
proof (cases "rom_len hdr = 0")
  case True
  with assms show ?thesis
    by (subst fu_rom_walk_loop.simps) (simp add: Let_def)
next
  case False
  with assms show ?thesis
    by (subst fu_rom_walk_loop.simps) (simp add: Let_def)
qed

lemma walk_loop_fault:
  assumes "(hdr_sz + jump) mod 4294967296 = off" "off < length buffer"
    and "fu_rom_pci_get_header buffer off (int (length buffer) - int hdr_sz - int jump) = None"
  shows "fu_rom_walk_loop buffer hdr_sz jump hs tr = Some (tr @ [off], None)"
  using assms by (subst fu_rom_walk_loop.simps) simp

lemma walk_loop_junk:
  assumes "(hdr_sz + jump) mod 4294967296 = off" "off < length buffer"
    and "fu_rom_pci_get_header buffer off (int (length buffer) - int hdr_sz - int jump) =
           Some None"
  shows "fu_rom_walk_loop buffer hdr_sz jump hs tr =
           Some (tr @ [off],
             case found_data buffer off 0 of
               None \<Rightarrow> None
             | Some False \<Rightarrow> Some hs
             | Some True \<Rightarrow> map_option (\<lambda>hdr. hs @ [hdr]) (fake_header buffer off))"
  using assms
  by (subst fu_rom_walk_loop.simps)
     (auto split: option.splits bind_splits simp: map_option_case)

lemma first_nonzero:
  "\<not> set w \<subseteq> {0::u8} \<Longrightarrow> \<exists>k<length w. w ! k \<noteq> 0 \<and> (\<forall>j<k. w ! j = 0)"
proof (induction w)
  case Nil
  then show ?case by simp
next
  case (Cons x xs)
  show ?case
  proof (cases "x = 0")
    case False
    then have "0 < length (x # xs) \<and> (x # xs) ! 0 \<noteq> 0 \<and> (\<forall>j<0. (x # xs) ! j = 0)"
      by simp
    then show ?thesis by blast
  next
    case True
    with Cons.prems have "\<not> set xs \<subseteq> {0}" by auto
    from Cons.IH[OF this] obtain k where
      k: "k < length xs" "xs ! k \<noteq> 0" "\<forall>j<k. xs ! j = 0" by blast
    have "Suc k < length (x # xs) \<and> (x # xs) ! Suc k \<noteq> 0 \<and>
        (\<forall>j<Suc k. (x # xs) ! j = 0)"
      using k True by (auto simp: nth_Cons')
    then show ?thesis by blast
  qed
qed

lemma found_data_window:
  assumes "off < length buffer" "length buffer \<le> buffer_sz"
  shows "found_data buffer off 0 =
     (if set (take off (drop off buffer)) \<subseteq> {0}
      then (if 2 * off \<le> length buffer then Some False else None)
      else Some True)"
proof -
  let ?w = "take off (drop off buffer)"
  have lw: "length ?w = min off (length buffer - off)" by simp
  have nth: "\<And>j. j < length ?w \<Longrightarrow> ?w ! j = buffer ! (off + j)"
    using assms(1) by (simp add: nth_drop)
  have big: "length buffer \<le> 4294967296" using assms(2) by (simp add: buffer_sz_def)
  show ?thesis
  proof (cases "set ?w \<subseteq> {0}")
    case zero: True
    have z: "\<And>j. j < length ?w \<Longrightarrow> buffer ! (off + j) = 0"
    proof -
      fix j assume j: "j < length ?w"
      then have "?w ! j \<in> set ?w" by (rule nth_mem)
      with zero have "?w ! j = 0" by auto
      with nth[OF j] show "buffer ! (off + j) = 0" by simp
    qed
    show ?thesis
    proof (cases "2 * off \<le> length buffer")
      case True
      then have "length ?w = off" by simp
      with z have "\<forall>j. 0 \<le> j \<and> j < off \<longrightarrow> buffer ! (off + j) = 0" by simp
      from found_data_zero[OF True big this] zero True show ?thesis by simp
    next
      case False
      then have lw': "length ?w = length buffer - off" by simp
      have "\<forall>j. 0 \<le> j \<and> off + j < length buffer \<longrightarrow> buffer ! (off + j) = 0"
      proof (intro allI impI)
        fix j assume "0 \<le> j \<and> off + j < length buffer"
        then have "j < length buffer - off" by arith
        with lw' have "j < length ?w" by (simp only:)
        then show "buffer ! (off + j) = 0" by (rule z)
      qed
      moreover have "0 < off" using False assms(1) by simp
      moreover have "2 * off \<le> 4294967296" using assms by (simp add: buffer_sz_def)
      ultimately have "found_data buffer off 0 = None"
        using False assms(1) by (intro found_data_overrun) simp_all
      with zero False show ?thesis by simp
    qed
  next
    case nonzero: False
    from first_nonzero[OF nonzero] obtain k where
      klt: "k < length ?w" and knz: "?w ! k \<noteq> 0" and kz: "\<And>j. j < k \<Longrightarrow> ?w ! j = 0"
      by blast
    have "found_data buffer off 0 = Some True"
    proof (rule found_data_nonzero[where k=k])
      show "0 \<le> k" by simp
      show "k < off" using klt by simp
      show "off + k < length buffer" using klt by (simp add: less_diff_conv)
      show "length buffer \<le> 4294967296" by (rule big)
      show "\<forall>j. 0 \<le> j \<and> j < k \<longrightarrow> buffer ! (off + j) = 0"
      proof (intro allI impI)
        fix j assume "0 \<le> j \<and> j < k"
        then have "j < k" "j < length ?w" using klt by simp_all
        with kz[of j] nth[of j] show "buffer ! (off + j) = 0" by simp
      qed
      show "buffer ! (off + k) \<noteq> 0" using knz nth[OF klt] by simp
    qed
    with nonzero show ?thesis by simp
  qed
qed

lemma fake_header_eq:
  assumes "off < length buffer" "length buffer \<le> buffer_sz"
  shows "fake_header buffer off = Some (hdr_new0\<lparr>vendor_id := 0, device_id := 0,
      code_type := 0, last_image := 0x80, rom_offset := off, rom_len := length buffer - off,
      rom_data := drop off buffer, image_len := length buffer - off\<rparr>)"
proof -
  have d: "int (length buffer) - int off = int (length buffer - off)"
    using assms(1) by (simp add: of_nat_diff)
  have "length buffer - off < 4294967296" using assms(2) by (simp add: buffer_sz_def)
  then have "int (length buffer - off) mod 4294967296 = int (length buffer - off)"
    by (intro mod_pos_pos_trivial) simp_all
  with d have n: "nat ((int (length buffer) - int off) mod 4294967296) = length buffer - off"
    by (simp only: nat_int)
  have r: "mem_range buffer off (length buffer - off) = Some (drop off buffer)"
    using assms(1) by (simp add: mem_range_def)
  show ?thesis
    unfolding fake_header_def Let_def n by (simp add: r)
qed

lemma plain_len: "length rom_plain = 1024" by (simp add: rom_plain_def)

lemma plain_ifr: "ifr_hdr_sz host_le rom_plain = Some 0"
  by (simp add: ifr_hdr_sz_def rom_plain_def mem_defs)

lemma plain_hdr: "fu_rom_pci_get_header rom_plain 0 1024 = Some (Some rom_plain_hdr)"
  by (simp add: fu_rom_pci_get_header_def fu_rom_pci_parse_data_def rom_plain_def mem_defs
      rom_plain_hdr_def le16_def hdr_new0_def)

lemma plain_walk: "fu_rom_walk_loop rom_plain 0 0 [] [] = Some ([0], Some [rom_plain_hdr])"
proof -
  have "fu_rom_walk_loop rom_plain 0 0 [] [] =
      fu_rom_walk_loop rom_plain 0 ((0 + 1024) mod 4294967296)
        ([] @ [rom_plain_hdr\<lparr>rom_offset := 0\<rparr>]) ([] @ [0])"
    by (rule walk_loop_next[where off=0]) (simp_all add: plain_len plain_hdr, simp add: rom_plain_hdr_def)
  also have "\<dots> = Some ([0], Some [rom_plain_hdr])"
    by (subst walk_loop_exit) (simp_all add: plain_len rom_plain_hdr_def hdr_new0_def)
  finally show ?thesis .
qed

lemma plain_print: "fu_rom_pci_print_header rom_plain_hdr = Ret ()"
  by (rule print_header_quiet) (simp_all add: rom_plain_hdr_def hdr_new0_def)

lemma plain_headers:
  "fu_rom_load_headers b rom_plain 0 (fu_rom_new\<lparr>hdrs := [rom_plain_hdr]\<rparr>) =
     Ret (Some VersionNotFound, rom_plain_priv)"
  apply (simp add: fu_rom_load_headers_def Let_def detect_intel_hdr_sz_def detect_kind_def
     fu_rom_load_version_def fu_rom_find_version_pci_def blank_pass_skipped
     rom_plain_hdr_def hdr_new0_def fu_rom_new_def rom_plain_priv_def mem_defs plain_len)
  apply (simp add: rom_plain_def mem_defs)
  done

lemma plain_load:
  "fu_rom_load_file host_le b (file_of rom_plain) fu_rom_new = Ret (Some VersionNotFound, rom_plain_priv)"
  by (simp add: load_file_of plain_len buffer_sz_def fu_rom_load_buffer_def plain_ifr
      fu_rom_new_def plain_walk plain_print plain_headers[unfolded fu_rom_new_def, simplified])





lemma junk_hdr0: "fu_rom_pci_get_header rom_junk 0 1024 = Some (Some block_hdr)"
  by (simp add: fu_rom_pci_get_header_def fu_rom_pci_parse_data_def rom_junk_def mem_defs
      block_hdr_def le16_def hdr_new0_def)




lemma tail_decoded: "fu_rom_pci_get_header rom_tail 0 1024 = Some (Some tail_hdr)"
  by (simp add: fu_rom_pci_get_header_def fu_rom_pci_parse_data_def rom_tail_def mem_defs
      tail_hdr_def le16_def hdr_new0_def)

lemma absent_byte_no_window:
  assumes "needle \<noteq> []" "hd needle \<notin> set (take k mem)" "j < k" "k \<le> length mem"
  shows "take (length needle) (drop j mem) \<noteq> needle"
proof (rule window_neq[OF assms(1)])
  show "j < length mem" using assms(3,4) by simp
  have "take k mem ! j \<in> set (take k mem)" using assms(3,4) by (intro nth_mem) simp
  then have "mem ! j \<in> set (take k mem)" using assms(3) by simp
  with assms(2) show "mem ! j \<noteq> hd needle" by metis
qed

lemma tail_no_P: "hd PPID \<notin> set (take 508 (rom_data tail_hdr))"
  by (simp add: tail_hdr_def PPID_def bytes_of_def)

lemma tail_strstr: "fu_rom_pci_strstr tail_hdr PPID = Some None"
proof -
  have "fu_rom_pci_strstr_loop (rom_data tail_hdr) 0 PPID 508 0 = Some None"
  proof (rule strstr_loop_none)
    show "0 + 508 + length PPID \<le> Suc (length (rom_data tail_hdr))"
      by (simp add: tail_hdr_def PPID_def bytes_of_def)
    show "\<forall>j. 0 \<le> j \<and> j < 508 \<longrightarrow>
        take (length PPID) (drop (0 + j) (rom_data tail_hdr)) \<noteq> PPID"
      using absent_byte_no_window[OF c_str_PPID(3) tail_no_P]
      by (simp add: tail_hdr_def PPID_def bytes_of_def)
  qed
  then show ?thesis
    by (simp add: fu_rom_pci_strstr_def c_str_PPID Let_def)
       (simp add: tail_hdr_def PPID_def bytes_of_def hdr_new0_def)
qed

lemma tail_spec_find: "spec_find tail_hdr PPID = Some 508"
proof -
  let ?span = "rom_data tail_hdr"
  have span: "take (rom_len tail_hdr - data_len tail_hdr) (drop (data_len tail_hdr) ?span) = ?span"
    by (simp add: tail_hdr_def hdr_new0_def bytes_of_def)
  have len: "length ?span = 512" by (simp add: tail_hdr_def bytes_of_def)
  have hit: "take 4 (drop 508 ?span) = PPID"
    by (simp add: tail_hdr_def PPID_def bytes_of_def)
  have miss: "\<And>j. j < 508 \<Longrightarrow> take 4 (drop j ?span) \<noteq> PPID"
    using absent_byte_no_window[OF c_str_PPID(3) tail_no_P] by (simp add: len c_str_PPID)
  have "find (\<lambda>i. take 4 (drop i ?span) = PPID) ([0 ..< 508] @ [508]) = Some 508"
    unfolding find_Some_iff
    by (rule exI[where x=508]) (use hit miss in \<open>simp add: nth_append\<close>)
  then show ?thesis
    by (simp add: spec_find_def Let_def span len c_str_PPID)
       (simp add: tail_hdr_def hdr_new0_def)
qed

lemma ifr_le: "ifr_hdr_sz True rom_ifr = Some 256"
  by (simp add: ifr_hdr_sz_def rom_ifr_def mem_defs GUINT16_FROM_BE_def)

lemma ifr_be: "ifr_hdr_sz False rom_ifr = Some 1"
  by (simp add: ifr_hdr_sz_def rom_ifr_def mem_defs GUINT16_FROM_BE_def)

lemma strstr_absent:
  assumes "c_str needle \<noteq> []" "hd (c_str needle) \<notin> set (rom_data hdr)"
    and "rom_len hdr \<le> length (rom_data hdr)"
  shows "fu_rom_pci_strstr hdr needle = Some None"
proof (cases "rom_data hdr = [] \<or> rom_len hdr < data_len hdr \<or>
    rom_len hdr - data_len hdr < length (c_str needle)")
  case True
  then show ?thesis by (auto simp: fu_rom_pci_strstr_def Let_def)
next
  case False
  let ?n = "rom_len hdr - data_len hdr - length (c_str needle)"
  have pos: "0 < length (c_str needle)" using assms(1) by simp
  have "fu_rom_pci_strstr_loop (rom_data hdr) (data_len hdr) (c_str needle) ?n 0 = Some None"
  proof (rule strstr_loop_none)
    show "data_len hdr + ?n + length (c_str needle) \<le> Suc (length (rom_data hdr))"
      using False assms(3) by arith
    show "\<forall>j. 0 \<le> j \<and> j < ?n \<longrightarrow>
        take (length (c_str needle)) (drop (data_len hdr + j) (rom_data hdr)) \<noteq> c_str needle"
    proof (intro allI impI)
      fix j assume "0 \<le> j \<and> j < ?n"
      then have "data_len hdr + j < length (rom_data hdr)"
        using False assms(3) pos by arith
      moreover have "hd (c_str needle) \<notin> set (take (length (rom_data hdr)) (rom_data hdr))"
        using assms(2) by simp
      ultimately show "take (length (c_str needle)) (drop (data_len hdr + j) (rom_data hdr))
          \<noteq> c_str needle"
        by (intro absent_byte_no_window[OF assms(1), where k="length (rom_data hdr)"]) simp_all
    qed
  qed
  with False show ?thesis by (simp add: fu_rom_pci_strstr_def Let_def)
qed

lemma memcmp_absent:
  assumes "lit \<noteq> []" "hd lit \<notin> set m" "off + length lit \<le> length m"
  shows "memcmp_eq m off lit = Some False"
proof -
  have "off < length m" using assms(1,3) by (cases lit) auto
  moreover have "hd lit \<notin> set (take (length m) m)" using assms(2) by simp
  ultimately have "take (length lit) (drop off m) \<noteq> lit"
    by (intro absent_byte_no_window[OF assms(1), where k="length m"]) simp_all
  with assms(3) show ?thesis by (simp add: memcmp_eq_def mem_range_def)
qed

lemma nvidia_no_version:
  assumes "0x56 \<notin> set (rom_data hdr)" "rom_len hdr \<le> length (rom_data hdr)"
    and "0x145 \<le> length (rom_data hdr)"
  shows "fu_rom_find_version_nvidia hdr = Some None"
proof -
  have c: "c_str (bytes_of ''Version '') = bytes_of ''Version ''"
    "c_str (bytes_of ''Vension:'') = bytes_of ''Vension:''"
    "c_str (bytes_of ''Version'') = bytes_of ''Version''"
    by (simp_all add: c_str_def bytes_of_def)
  have h: "hd (bytes_of ''Version '') = 0x56" "hd (bytes_of ''Vension:'') = 0x56"
    "hd (bytes_of ''Version'') = 0x56" "hd (bytes_of ''VBIOS Ver'') = 0x56"
    "bytes_of ''Version '' \<noteq> []" "bytes_of ''Vension:'' \<noteq> []"
    "bytes_of ''Version'' \<noteq> []" "bytes_of ''VBIOS Ver'' \<noteq> []"
    "length (bytes_of ''Version '') = 8" "length (bytes_of ''VBIOS Ver'') = 9"
    by (simp_all add: bytes_of_def)
  have s1: "fu_rom_pci_strstr hdr (bytes_of ''Version '') = Some None"
    by (rule strstr_absent) (simp_all add: c h assms)
  have s2: "fu_rom_pci_strstr hdr (bytes_of ''Vension:'') = Some None"
    by (rule strstr_absent) (simp_all add: c h assms)
  have s3: "fu_rom_pci_strstr hdr (bytes_of ''Version'') = Some None"
    by (rule strstr_absent) (simp_all add: c h assms)
  have m1: "memcmp_eq (rom_data hdr) 0x013d (bytes_of ''Version '') = Some False"
    using assms by (intro memcmp_absent) (simp_all add: h)
  have m2: "memcmp_eq (rom_data hdr) 0xfa (bytes_of ''VBIOS Ver'') = Some False"
    using assms by (intro memcmp_absent) (simp_all add: h)
  show ?thesis
    by (simp add: fu_rom_find_version_nvidia_def s1 s2 s3 m1 m2)
qed


lemma nv_len: "length rest = 960 \<Longrightarrow> length (nv_prefix @ rest) = 1024"
  by (simp add: nv_prefix_def bytes_of_def)

lemma nv_prefix_len: "length nv_prefix = 64"
  by (simp add: nv_prefix_def bytes_of_def)

lemma nv_no_V: "0x56 \<notin> set rest \<Longrightarrow> 0x56 \<notin> set (nv_prefix @ rest)"
  by (simp add: nv_prefix_def bytes_of_def)

lemma nv_ifr: "ifr_hdr_sz host_le (nv_prefix @ rest) = Some 0"
  by (simp add: ifr_hdr_sz_def nv_prefix_def mem_defs)

lemma nv_decode:
  assumes "length rest = 960"
  shows "fu_rom_pci_get_header (nv_prefix @ rest) 0 1024 = Some (Some (nv_hdr (nv_prefix @ rest)))"
  using assms
  by (simp add: fu_rom_pci_get_header_def fu_rom_pci_parse_data_def nv_prefix_def mem_defs
      nv_hdr_def le16_def hdr_new0_def)

lemma nv_walk:
  assumes "length rest = 960"
  shows "fu_rom_walk_loop (nv_prefix @ rest) 0 0 [] [] =
     Some ([0], Some [nv_hdr (nv_prefix @ rest)])"
proof -
  let ?X = "nv_prefix @ rest"
  have "fu_rom_walk_loop ?X 0 0 [] [] =
      fu_rom_walk_loop ?X 0 ((0 + 1024) mod 4294967296)
        ([] @ [nv_hdr ?X\<lparr>rom_offset := 0\<rparr>]) ([] @ [0])"
    by (rule walk_loop_next[where off=0])
       (simp_all add: nv_prefix_len assms nv_decode[OF assms, simplified], simp add: nv_hdr_def)
  also have "\<dots> = Some ([0], Some [nv_hdr ?X])"
    by (subst walk_loop_exit) (simp_all add: nv_prefix_len assms nv_hdr_def hdr_new0_def)
  finally show ?thesis .
qed

lemma nv_kind:
  assumes "length rest = 960"
  shows "detect_intel_hdr_sz (nv_prefix @ rest) (nv_hdr (nv_prefix @ rest)) 0 = Some 0"
    and "detect_kind (nv_prefix @ rest) 0 FU_ROM_KIND_PCI = Some FU_ROM_KIND_NVIDIA"
  using assms
  by (simp_all add: detect_intel_hdr_sz_def detect_kind_def nv_hdr_def nv_prefix_def mem_defs)

lemma nv_version:
  assumes "length rest = 960" "0x56 \<notin> set rest"
  shows "fu_rom_find_version_nvidia (nv_hdr (nv_prefix @ rest)) = Some None"
  using nv_len[OF assms(1)] nv_no_V[OF assms(2)]
  by (intro nvidia_no_version) (simp_all add: nv_hdr_def)

lemma nv_headers:
  assumes "length rest = 960" "0x56 \<notin> set rest"
  shows "fu_rom_load_headers blank_ppid (nv_prefix @ rest) 0
           (fu_rom_new\<lparr>hdrs := [nv_hdr (nv_prefix @ rest)]\<rparr>) =
     then_do (if blank_ppid then blank_headers [nv_hdr (nv_prefix @ rest)]
              else Ret [nv_hdr (nv_prefix @ rest)]) (\<lambda>hs.
     then_do (of_option (checksum_update_all [] hs)) (\<lambda>wip.
       Ret (Some VersionNotFound, nv_priv hs wip)))"
proof -
  let ?h = "nv_hdr (nv_prefix @ rest)"
  have v: "vendor_id ?h = 0" "device_id ?h = 0" by (simp_all add: nv_hdr_def hdr_new0_def)
  show ?thesis
  proof (cases blank_ppid)
    case False
    then show ?thesis
      by (cases "checksum_update_all [] [?h]")
         (simp_all add: fu_rom_load_headers_def Let_def nv_kind[OF assms(1)] nv_prefix_len
            assms(1) fu_rom_load_version_def nv_version[OF assms] v fu_rom_new_def nv_priv_def)
  next
    case True
    show ?thesis
    proof (cases "blank_headers [?h]")
      case (Ret hs)
      with True show ?thesis
        by (cases "checksum_update_all [] hs")
           (simp_all add: fu_rom_load_headers_def Let_def nv_kind[OF assms(1)] nv_prefix_len
              assms(1) fu_rom_load_version_def nv_version[OF assms] v fu_rom_new_def
              nv_priv_def fu_rom_find_and_blank_serial_numbers_def del: blank_headers.simps)
    qed (simp_all add: True fu_rom_load_headers_def Let_def nv_kind[OF assms(1)] nv_prefix_len
              assms(1) fu_rom_load_version_def nv_version[OF assms] v fu_rom_new_def
              nv_priv_def fu_rom_find_and_blank_serial_numbers_def del: blank_headers.simps)
  qed
qed

lemma nv_print: "fu_rom_pci_print_header (nv_hdr bytes) = Ret ()"
  by (rule print_header_quiet) (simp_all add: nv_hdr_def hdr_new0_def)

lemma nv_load:
  assumes "length rest = 960" "0x56 \<notin> set rest"
  shows "fu_rom_load_file host_le blank_ppid (file_of (nv_prefix @ rest)) fu_rom_new =
     then_do (if blank_ppid then blank_headers [nv_hdr (nv_prefix @ rest)]
              else Ret [nv_hdr (nv_prefix @ rest)]) (\<lambda>hs.
     then_do (of_option (checksum_update_all [] hs)) (\<lambda>wip.
       Ret (Some VersionNotFound, nv_priv hs wip)))"
proof -
  have "fu_rom_load_file host_le blank_ppid (file_of (nv_prefix @ rest)) fu_rom_new =
      fu_rom_load_buffer host_le blank_ppid (nv_prefix @ rest) fu_rom_new"
    by (rule load_file_of) (simp_all add: nv_prefix_len assms(1) buffer_sz_def)
  also have "\<dots> = fu_rom_load_headers blank_ppid (nv_prefix @ rest) 0
      (fu_rom_new\<lparr>hdrs := [nv_hdr (nv_prefix @ rest)]\<rparr>)"
    by (simp add: fu_rom_load_buffer_def nv_ifr nv_walk[OF assms(1)] fu_rom_new_def nv_print)
  finally show ?thesis by (simp only: nv_headers[OF assms])
qed

lemma blank_loop_eq:
  assumes "fu_rom_blank_serial_numbers mem p sz 0 = Some (mem', len)" "p + len \<le> length mem"
  shows "mem' = take p mem @ replicate len 0 @ drop (p + len) mem"
proof (rule nth_equalityI)
  from blank_loop_result[OF assms(1)] have
    l: "length mem' = length mem"
    and n: "\<And>x. mem' ! x = (if p \<le> x \<and> x < p + len then 0 else mem ! x)"
    by auto
  show "length mem' = length (take p mem @ replicate len 0 @ drop (p + len) mem)"
    using l assms(2) by simp
  fix x assume "x < length mem'"
  then have x: "x < length mem" using l by simp
  show "mem' ! x = (take p mem @ replicate len 0 @ drop (p + len) mem) ! x"
  proof (cases "x < p")
    case True
    then show ?thesis using x by (simp add: n nth_append)
  next
    case False
    show ?thesis
    proof (cases "x < p + len")
      case True
      with False have "x - p < len" by arith
      with True False x assms(2) show ?thesis by (simp add: n nth_append)
    next
      case False
      have a: "\<not> x - p < len" using False \<open>\<not> x < p\<close> by arith
      have b: "p + len + (x - p - len) = x" using False by arith
      have "(take p mem @ replicate len 0 @ drop (p + len) mem) ! x =
          drop (p + len) mem ! (x - p - len)"
        using \<open>\<not> x < p\<close> a assms(2) by (simp add: nth_append)
      also have "\<dots> = mem ! (p + len + (x - p - len))"
        using assms(2) by (intro nth_drop) simp
      also have "\<dots> = mem ! x" by (simp only: b)
      finally show ?thesis using False by (simp add: n)
    qed
  qed
qed

lemma blank_header_eval:
  assumes "fu_rom_pci_strstr hdr PPID = Some (Some p)"
    and "k < rom_len hdr - data_len hdr" "p + k < length (rom_data hdr)"
    and "boundary (rom_data hdr ! (p + k))"
    and "\<forall>j. j < k \<longrightarrow> \<not> boundary (rom_data hdr ! (p + j))"
    and "length (rom_data hdr) = rom_len hdr" "rom_len hdr < 4294967296"
    and "mem = take p (rom_data hdr) @ replicate k 0 @ drop (p + k) (rom_data hdr)"
    and "image_len hdr = 0" "code_type hdr \<noteq> 0x70" "18 \<le> length (reserved hdr)"
  shows "blank_header hdr =
     Ret (hdr\<lparr>rom_data := mem[rom_len hdr - 1 := mem ! (rom_len hdr - 1) - sum_list mem]\<rparr>)"
proof -
  from blank_loop_stop[where i=0 and k=k and sz="rom_len hdr - data_len hdr" and p=p
      and mem="rom_data hdr"] assms(2-5)
  obtain mem' where loop: "fu_rom_blank_serial_numbers (rom_data hdr) p
      (rom_len hdr - data_len hdr) 0 = Some (mem', k)"
    by auto
  from blank_loop_eq[OF loop] assms(3,8) have mem': "mem' = mem" by simp
  have len: "length mem = rom_len hdr" using assms(3,6,8) by simp
  have pos: "0 < rom_len hdr" using assms(2) by simp
  have chk: "fu_rom_pci_header_get_checksum (hdr\<lparr>rom_data := mem\<rparr>) = Some (sum_list mem)"
    using len by (simp add: fu_rom_pci_header_get_checksum_def mem_range_def)
  have last: "(4294967295 + rom_len hdr) mod 4294967296 = rom_len hdr - 1"
    using last_index[OF pos assms(7)] by simp
  have "fu_rom_pci_print_header
      (hdr\<lparr>rom_data := mem[rom_len hdr - 1 := mem ! (rom_len hdr - 1) - sum_list mem]\<rparr>) =
      Ret ()"
    using assms(9-11) by (intro print_header_quiet) simp_all
  moreover have "blank_and_fix_checksum hdr p =
      Some (hdr\<lparr>rom_data := mem[rom_len hdr - 1 := mem ! (rom_len hdr - 1) - sum_list mem]\<rparr>)"
    unfolding blank_and_fix_checksum_def
    using pos len by (simp add: loop mem' chk last mem_read_def mem_write_def Let_def)
  ultimately show ?thesis
    by (simp add: blank_header_def assms(1))
qed

lemma nv_prefix_no_P: "0x50 \<notin> set nv_prefix"
  by (simp add: nv_prefix_def bytes_of_def)

lemma nv_prefix_sum: "sum_list nv_prefix = 0xbe"
  by (simp add: nv_prefix_def bytes_of_def sum_list_replicate)

lemma nv_hdr_fields:
  "rom_data (nv_hdr bytes) = bytes" "rom_len (nv_hdr bytes) = 1024" "data_len (nv_hdr bytes) = 0"
  "nv_hdr bytes\<lparr>rom_data := bytes'\<rparr> = nv_hdr bytes'"
  by (simp_all add: nv_hdr_def hdr_new0_def)

lemma nv_strstr_at:
  assumes "length rest = 960" "q < 956" "take 4 (drop q rest) = PPID"
    and "0x50 \<notin> set (take q rest)"
  shows "fu_rom_pci_strstr (nv_hdr (nv_prefix @ rest)) PPID = Some (Some (64 + q))"
proof -
  let ?X = "nv_prefix @ rest"
  have len: "length ?X = 1024" by (rule nv_len[OF assms(1)])
  have "fu_rom_pci_strstr_loop ?X 0 PPID 1020 0 = Some (Some (0 + (64 + q)))"
  proof (rule strstr_loop_first)
    show "0 \<le> 64 + q" by simp
    show "64 + q < 1020" using assms(2) by simp
    show "0 + (64 + q) + length PPID \<le> length ?X"
      using assms(2) by (simp add: len c_str_PPID del: length_append)
    show "take (length PPID) (drop (0 + (64 + q)) ?X) = PPID"
      using assms(3) by (simp add: c_str_PPID nv_prefix_len)
    have "hd PPID \<notin> set (take (64 + q) ?X)"
      using assms(4) nv_prefix_no_P by (simp add: c_str_PPID nv_prefix_len)
    then show "\<forall>j. 0 \<le> j \<and> j < 64 + q \<longrightarrow>
        take (length PPID) (drop (0 + j) ?X) \<noteq> PPID"
      using absent_byte_no_window[OF c_str_PPID(3), where k="64 + q" and mem="?X"] assms(2)
      by (simp add: len del: length_append)
  qed
  then show ?thesis
    using len
    by (simp add: fu_rom_pci_strstr_def c_str_PPID nv_hdr_fields Let_def del: length_append)
       (simp add: nv_prefix_def)
qed

lemma nv_blank_eval:
  assumes "length rest = 960" "q < 956" "take 4 (drop q rest) = PPID"
    and "0x50 \<notin> set (take q rest)"
    and "q + k < 960" "boundary (rest ! (q + k))"
    and "\<forall>b\<in>set (take k (drop q rest)). \<not> boundary b"
    and "mem = nv_prefix @ take q rest @ replicate k 0 @ drop (q + k) rest"
  shows "blank_header (nv_hdr (nv_prefix @ rest)) =
     Ret (nv_hdr (mem[1023 := mem ! 1023 - sum_list mem]))"
proof -
  let ?X = "nv_prefix @ rest"
  let ?h = "nv_hdr ?X"
  have len: "length ?X = 1024" by (rule nv_len[OF assms(1)])
  have nb: "\<forall>j. j < k \<longrightarrow> \<not> boundary (rom_data ?h ! (64 + q + j))"
  proof (intro allI impI)
    fix j assume j: "j < k"
    then have "take k (drop q rest) ! j \<in> set (take k (drop q rest))"
      using assms(1,5) by (intro nth_mem) simp
    moreover have "take k (drop q rest) ! j = rest ! (q + j)"
      using j assms(1,5) by (simp add: nth_drop)
    ultimately have "\<not> boundary (rest ! (q + j))" using assms(7) by metis
    then show "\<not> boundary (rom_data ?h ! (64 + q + j))"
      by (simp add: nv_hdr_fields nth_append nv_prefix_len)
  qed
  have m: "mem = take (64 + q) (rom_data ?h) @ replicate k 0 @ drop (64 + q + k) (rom_data ?h)"
    using assms(8) by (simp add: nv_hdr_fields nv_prefix_len add.assoc)
  have "blank_header ?h = Ret (?h\<lparr>rom_data :=
      mem[rom_len ?h - 1 := mem ! (rom_len ?h - 1) - sum_list mem]\<rparr>)"
  proof (rule blank_header_eval[where p="64 + q" and k=k])
    show "fu_rom_pci_strstr ?h PPID = Some (Some (64 + q))"
      by (rule nv_strstr_at[OF assms(1-4)])
    show "k < rom_len ?h - data_len ?h" using assms(5) by (simp add: nv_hdr_fields)
    show "64 + q + k < length (rom_data ?h)"
      using assms(5) by (simp add: nv_hdr_fields len del: length_append)
    show "boundary (rom_data ?h ! (64 + q + k))"
      using assms(6) by (simp add: nv_hdr_fields nth_append nv_prefix_len add.assoc)
    show "\<forall>j. j < k \<longrightarrow> \<not> boundary (rom_data ?h ! (64 + q + j))" by (rule nb)
    show "length (rom_data ?h) = rom_len ?h" by (simp add: nv_hdr_fields len del: length_append)
    show "rom_len ?h < 4294967296" by (simp add: nv_hdr_fields)
    show "mem = take (64 + q) (rom_data ?h) @ replicate k 0 @ drop (64 + q + k) (rom_data ?h)"
      by (rule m)
    show "image_len ?h = 0" "code_type ?h \<noteq> 0x70" "18 \<le> length (reserved ?h)"
      by (simp_all add: nv_hdr_def hdr_new0_def)
  qed
  then show ?thesis by (simp add: nv_hdr_fields)
qed

lemma replicate_update_last:
  "0 < m \<Longrightarrow> (replicate m x)[m - 1 := v] = replicate (m - 1) x @ [v]"
proof -
  assume "0 < m"
  then obtain n where m: "m = Suc n" by (cases m) auto
  have "replicate (Suc n) x = replicate n x @ [x]" by (induction n) auto
  then have "(replicate (Suc n) x)[n := v] = (replicate n x @ [x])[length (replicate n x) := v]"
    by simp
  also have "\<dots> = replicate n x @ [v]" by (rule list_update_length)
  finally show ?thesis by (simp add: m)
qed

lemma u8_neg: "(- 190 :: u8) = 0x42" "(- 561 :: u8) = 0xcf" "(- 210 :: u8) = 0x2e"
  "(- 257 :: u8) = 0xff"
  by simp_all

lemmas eval_simps = u8_neg nv_prefix_len nv_prefix_sum sum_list_replicate bytes_of_def nth_append
  list_update_append boundary_def PPID_def

lemma one_blank: "blank_header (nv_hdr rom_serial_one) = Ret (nv_hdr rom_serial_one_redacted)"
proof -
  define mem where "mem = nv_prefix @ take 0 (bytes_of ''PPID1234'' @ replicate 952 0) @
    replicate 8 0 @ drop (0 + 8) (bytes_of ''PPID1234'' @ replicate 952 0)"
  have "blank_header (nv_hdr (nv_prefix @ bytes_of ''PPID1234'' @ replicate 952 0)) =
      Ret (nv_hdr (mem[1023 := mem ! 1023 - sum_list mem]))"
    by (rule nv_blank_eval[where q=0 and k=8]) (simp_all add: eval_simps mem_def)
  moreover have "mem = nv_prefix @ replicate 8 0 @ replicate 952 0"
    by (simp add: mem_def bytes_of_def)
  moreover have "(nv_prefix @ replicate 8 0 @ replicate 952 (0::u8))[1023 := 0x42] =
      rom_serial_one_redacted"
    using replicate_update_last[of 960 "0::u8" "0x42"]
    by (simp add: eval_simps rom_serial_one_redacted_def replicate_add[symmetric])
  ultimately show ?thesis
    by (simp add: rom_serial_one_def eval_simps)
qed


lemma two_blank1: "blank_header (nv_hdr rom_serial_two) = Ret (nv_hdr rom_serial_two_once)"
proof -
  let ?rest = "bytes_of ''PPID1'' @ [0x0a] @ bytes_of ''PPID2'' @ [0x0a] @ replicate 948 0"
  define mem where "mem = nv_prefix @ take 0 ?rest @ replicate 5 0 @ drop (0 + 5) ?rest"
  have "blank_header (nv_hdr (nv_prefix @ ?rest)) =
      Ret (nv_hdr (mem[1023 := mem ! 1023 - sum_list mem]))"
    by (rule nv_blank_eval[where q=0 and k=5]) (simp_all add: eval_simps mem_def)
  moreover have "mem = nv_prefix @ replicate 5 0 @ [0x0a] @ bytes_of ''PPID2'' @ [0x0a] @
      replicate 948 0"
    by (simp add: mem_def bytes_of_def)
  moreover have "(nv_prefix @ replicate 5 0 @ [0x0a] @ bytes_of ''PPID2'' @ [0x0a] @
      replicate 948 (0::u8))[1023 := 0xcf] = rom_serial_two_once"
    using replicate_update_last[of 948 "0::u8" "0xcf"]
    by (simp add: eval_simps rom_serial_two_once_def)
  ultimately show ?thesis
    by (simp add: rom_serial_two_def eval_simps)
qed

lemma two_blank2:
  "blank_header (nv_hdr rom_serial_two_once) = Ret (nv_hdr rom_serial_two_twice)"
proof -
  let ?rest = "replicate 5 0 @ [0x0a] @ bytes_of ''PPID2'' @ [0x0a] @ replicate 947 0 @ [0xcf]"
  define mem where "mem = nv_prefix @ take 6 ?rest @ replicate 5 0 @ drop (6 + 5) ?rest"
  have "blank_header (nv_hdr (nv_prefix @ ?rest)) =
      Ret (nv_hdr (mem[1023 := mem ! 1023 - sum_list mem]))"
    by (rule nv_blank_eval[where q=6 and k=5]) (simp_all add: eval_simps mem_def)
  moreover have "mem = nv_prefix @ replicate 5 0 @ [0x0a] @ replicate 5 0 @ [0x0a] @
      replicate 947 0 @ [0xcf]"
    by (simp add: mem_def bytes_of_def)
  ultimately show ?thesis
    by (simp add: rom_serial_two_once_def rom_serial_two_twice_def eval_simps)
qed

lemma over_blank: "blank_header (nv_hdr rom_serial_over) = Fault"
proof -
  let ?rest = "bytes_of ''PPID'' @ replicate 956 0x41"
  let ?X = "nv_prefix @ ?rest"
  have s: "fu_rom_pci_strstr (nv_hdr ?X) PPID = Some (Some (64 + 0))"
    by (rule nv_strstr_at) (simp_all add: eval_simps)
  have "fu_rom_blank_serial_numbers ?X 64 1024 0 = None"
  proof (rule blank_loop_overrun)
    show "length ?X < 64 + 1024" by (simp add: eval_simps)
    show "64 + 0 \<le> length ?X" by (simp add: eval_simps)
    show "\<forall>j. 0 \<le> j \<and> 64 + j < length ?X \<longrightarrow> \<not> boundary (?X ! (64 + j))"
    proof (intro allI impI)
      fix j assume "0 \<le> j \<and> 64 + j < length ?X"
      then have j: "j < length ?rest" by (simp add: eval_simps)
      then have "?rest ! j \<in> set ?rest" by (rule nth_mem)
      then have "\<not> boundary (?rest ! j)" by (auto simp: bytes_of_def boundary_def)
      then show "\<not> boundary (?X ! (64 + j))" by (simp add: nth_append nv_prefix_len)
    qed
  qed
  with s show ?thesis
    by (simp add: blank_header_def blank_and_fix_checksum_def rom_serial_over_def nv_hdr_fields)
qed

lemma window4:
  assumes "x + 4 \<le> length xs"
  shows "take 4 (drop x xs) = [xs ! x, xs ! (x + 1), xs ! (x + 2), xs ! (x + 3)]"
proof -
  have "take 4 (drop x xs) = take (Suc (Suc (Suc (Suc 0)))) (drop x xs)"
    by (simp add: eval_nat_numeral)
  also have "\<dots> = [xs ! x, xs ! (x + 1), xs ! (x + 2), xs ! (x + 3)]"
    using assms
    by (simp add: take_Suc_conv_app_nth nth_drop add.commute eval_nat_numeral)
  finally show ?thesis .
qed

lemma PPID_bytes: "PPID = [0x50, 0x50, 0x49, 0x44]"
  by (simp add: PPID_def bytes_of_def)

lemma blank_header_idem:
  assumes "rom_len hdr < 4294967296" and "blank_header hdr = Ret hdr'"
    and "single_field hdr"
  shows "blank_header hdr' = Ret hdr'"
  using assms(2)
proof (cases rule: blank_header_cases)
  case nomatch
  then show ?thesis by (simp add: blank_header_def)
next
  case (match p)
  from match(2) obtain mem len chk where
    m2: "fu_rom_blank_serial_numbers (rom_data hdr) p (rom_len hdr - data_len hdr) 0 =
      Some (mem, len)"
    and m3: "fu_rom_pci_header_get_checksum (hdr\<lparr>rom_data := mem\<rparr>) = Some chk"
    and m5: "hdr' = hdr\<lparr>rom_data := mem[(rom_len hdr + 4294967296 - 1) mod 4294967296 :=
                 mem ! ((rom_len hdr + 4294967296 - 1) mod 4294967296) - chk]\<rparr>"
    by (rule blank_and_fix_checksum_cases)
  from strstr_SomeD[OF match(1)] have
    dp: "data_len hdr \<le> p" and p4: "p + 4 < rom_len hdr"
    and first: "\<And>j. data_len hdr \<le> j \<Longrightarrow> j < p \<Longrightarrow> take 4 (drop j (rom_data hdr)) \<noteq> PPID"
    by (auto simp: c_str_PPID)
  from blank_loop_result[OF m2] have
    lmem: "length mem = length (rom_data hdr)"
    and nmem: "\<And>x. mem ! x = (if p \<le> x \<and> x < p + len then 0 else rom_data hdr ! x)"
    by auto
  from m3 have rl: "rom_len hdr \<le> length mem"
    by (auto simp: fu_rom_pci_header_get_checksum_def mem_range_def split: if_splits)
  have pos: "0 < rom_len hdr" using p4 by simp
  have last: "(rom_len hdr + 4294967296 - 1) mod 4294967296 = rom_len hdr - 1"
    using last_index[OF pos assms(1)] .
  define mem' where "mem' = mem[rom_len hdr - 1 := mem ! (rom_len hdr - 1) - chk]"
  have hdr': "hdr' = hdr\<lparr>rom_data := mem'\<rparr>"
    using m5 unfolding last mem'_def .
  have lmem': "length mem' = length mem" by (simp add: mem'_def)
  have later: "\<And>j. p + len \<le> j \<Longrightarrow> j + 4 < rom_len hdr \<Longrightarrow>
      take 4 (drop j (rom_data hdr)) \<noteq> PPID"
    using assms(3) match(1) m2 unfolding single_field_def by blast
  let ?n = "rom_len hdr - data_len hdr - 4"
  have "fu_rom_pci_strstr_loop mem' (data_len hdr) PPID ?n 0 = Some None"
  proof (rule strstr_loop_none)
    show "data_len hdr + ?n + length PPID \<le> Suc (length mem')"
      using rl lmem' dp p4 by (simp add: c_str_PPID)
    show "\<forall>j. 0 \<le> j \<and> j < ?n \<longrightarrow>
        take (length PPID) (drop (data_len hdr + j) mem') \<noteq> PPID"
    proof (intro allI impI notI)
      fix j assume j: "0 \<le> j \<and> j < ?n"
        and eq: "take (length PPID) (drop (data_len hdr + j) mem') = PPID"
      define x where "x = data_len hdr + j"
      have x4: "x + 4 < rom_len hdr" using j unfolding x_def by arith
      then have xl: "x + 4 \<le> length mem'" "x + 4 \<le> length (rom_data hdr)"
        using rl lmem lmem' by simp_all
      have same: "\<And>t. t < 4 \<Longrightarrow> mem' ! (x + t) = mem ! (x + t)"
        using x4 by (simp add: mem'_def)
      from eq have w: "[mem' ! x, mem' ! (x + 1), mem' ! (x + 2), mem' ! (x + 3)] = PPID"
        using window4[OF xl(1)] by (simp add: c_str_PPID x_def)
      then have m: "mem ! x = 0x50" "mem ! (x + 1) = 0x50" "mem ! (x + 2) = 0x49"
        "mem ! (x + 3) = 0x44"
        using same[of 0] same[of 1] same[of 2] same[of 3] by (simp_all add: PPID_bytes)
      have out: "\<not> (p \<le> x \<and> x < p + len)"
        using m(1) nmem[of x] by (auto split: if_splits)
      have o: "rom_data hdr ! x = 0x50" "rom_data hdr ! (x + 1) = 0x50"
        "rom_data hdr ! (x + 2) = 0x49" "rom_data hdr ! (x + 3) = 0x44"
        using m nmem[of x] nmem[of "x + 1"] nmem[of "x + 2"] nmem[of "x + 3"]
        by (auto split: if_splits)
      then have orig: "take 4 (drop x (rom_data hdr)) = PPID"
        using window4[OF xl(2)] by (simp add: PPID_bytes)
      show False
      proof (cases "x < p")
        case True
        with first[of x] orig show False by (simp add: x_def)
      next
        case False
        with out have "p + len \<le> x" by simp
        from later[OF this x4] orig show False by simp
      qed
    qed
  qed
  moreover have "mem' \<noteq> []" using lmem' rl pos by auto
  ultimately have "fu_rom_pci_strstr hdr' PPID = Some None"
    using dp p4 by (simp add: fu_rom_pci_strstr_def hdr' c_str_PPID Let_def)
  then show ?thesis by (simp add: blank_header_def)
qed

lemma blank_headers_idem:
  assumes "blank_headers hs = Ret hs'"
    and "\<forall>hdr\<in>set hs. rom_len hdr < 4294967296 \<and> single_field hdr"
  shows "blank_headers hs' = Ret hs'"
  using assms
proof (induction hs arbitrary: hs')
  case Nil
  then show ?case by simp
next
  case (Cons hdr hs)
  from Cons.prems(1) obtain hdr' hs1 where
    h: "blank_header hdr = Ret hdr'" and t: "blank_headers hs = Ret hs1"
    and hs': "hs' = hdr' # hs1"
    by auto
  from Cons.prems(2) have "blank_header hdr' = Ret hdr'"
    by (intro blank_header_idem[OF _ h]) simp_all
  moreover from Cons.IH[OF t] Cons.prems(2) have "blank_headers hs1 = Ret hs1" by simp
  ultimately show ?case by (simp add: hs')
qed

lemma one_rest: "rom_serial_one = nv_prefix @ (bytes_of ''PPID1234'' @ replicate 952 0)"
  by (simp add: rom_serial_one_def)

lemma one_strstr: "fu_rom_pci_strstr (nv_hdr rom_serial_one) PPID = Some (Some 64)"
  using nv_strstr_at[where q=0 and rest="bytes_of ''PPID1234'' @ replicate 952 0"]
  by (simp add: one_rest eval_simps)

lemma one_single: "single_field (nv_hdr rom_serial_one)"
  unfolding single_field_def
proof (intro allI impI)
  fix p mem len j
  let ?X = "rom_serial_one"
  assume s: "fu_rom_pci_strstr (nv_hdr ?X) PPID = Some (Some p)"
    and b: "fu_rom_blank_serial_numbers (rom_data (nv_hdr ?X)) p
        (rom_len (nv_hdr ?X) - data_len (nv_hdr ?X)) 0 = Some (mem, len)"
    and j: "p + len \<le> j" "j + 4 < rom_len (nv_hdr ?X)"
  from s have p: "p = 64" by (simp add: one_strstr)
  have "\<exists>mem'. fu_rom_blank_serial_numbers ?X 64 1024 0 = Some (mem', 8)"
  proof (rule blank_loop_stop)
    show "(0::nat) \<le> 8" "(8::nat) < 1024" by simp_all
    show "64 + 8 < length ?X" by (simp add: rom_serial_one_def eval_simps)
    show "boundary (?X ! (64 + 8))" by (simp add: rom_serial_one_def eval_simps)
    show "\<forall>j. 0 \<le> j \<and> j < 8 \<longrightarrow> \<not> boundary (?X ! (64 + j))"
    proof (intro allI impI)
      fix i :: nat assume "0 \<le> i \<and> i < 8"
      then have "bytes_of ''PPID1234'' ! i \<in> set (bytes_of ''PPID1234'')"
        by (intro nth_mem) (simp add: bytes_of_def)
      then have "\<not> boundary (bytes_of ''PPID1234'' ! i)"
        by (auto simp: bytes_of_def boundary_def)
      with \<open>0 \<le> i \<and> i < 8\<close> show "\<not> boundary (?X ! (64 + i))"
        by (simp add: rom_serial_one_def nth_append nv_prefix_len) (simp add: bytes_of_def)
    qed
  qed
  with b p have len: "len = 8" by (auto simp: nv_hdr_fields)
  from j p len have j72: "72 \<le> j" "j < 1020" by (simp_all add: nv_hdr_fields)
  then have "?X ! j = 0" by (simp add: rom_serial_one_def eval_simps)
  then have "?X ! j \<noteq> hd PPID" by (simp add: c_str_PPID)
  moreover have "j < length ?X" using j72 by (simp add: rom_serial_one_def eval_simps)
  ultimately have "take (length PPID) (drop j ?X) \<noteq> PPID"
    by (intro window_neq[OF c_str_PPID(3)])
  then show "take 4 (drop j (rom_data (nv_hdr ?X))) \<noteq> PPID"
    by (simp add: nv_hdr_fields c_str_PPID)
qed

lemma nv_pass:
  "fu_rom_find_and_blank_serial_numbers (nv_priv hs wip) =
     then_do (blank_headers hs) (\<lambda>hs'. Ret (nv_priv hs' wip))"
  by (cases "blank_headers hs")
     (simp_all add: fu_rom_find_and_blank_serial_numbers_def nv_priv_def)

lemma two_load:
  "fu_rom_load_file host_le True (file_of rom_serial_two) fu_rom_new =
     Ret (Some VersionNotFound, nv_priv [nv_hdr rom_serial_two_once] rom_serial_two_once)"
proof -
  let ?rest = "bytes_of ''PPID1'' @ [0x0a] @ bytes_of ''PPID2'' @ [0x0a] @ replicate 948 0"
  have r: "rom_serial_two = nv_prefix @ ?rest" by (simp add: rom_serial_two_def)
  have l: "length rom_serial_two_once = 1024"
    by (simp add: rom_serial_two_once_def eval_simps)
  have c: "checksum_update_all [] [nv_hdr rom_serial_two_once] = Some rom_serial_two_once"
    by (simp add: nv_hdr_fields mem_range_def l)
  have "fu_rom_load_file host_le True (file_of rom_serial_two) fu_rom_new =
     then_do (blank_headers [nv_hdr rom_serial_two]) (\<lambda>hs.
     then_do (of_option (checksum_update_all [] hs)) (\<lambda>wip.
       Ret (Some VersionNotFound, nv_priv hs wip)))"
    unfolding r using nv_load[of ?rest host_le True] by (simp add: bytes_of_def)
  then show ?thesis
    by (simp add: two_blank1 nv_hdr_fields mem_range_def l)
qed

lemma two_differs: "rom_serial_two_twice \<noteq> rom_serial_two_once"
proof
  assume "rom_serial_two_twice = rom_serial_two_once"
  then have "rom_serial_two_twice ! 70 = rom_serial_two_once ! 70" by simp
  then show False
    by (simp add: rom_serial_two_twice_def rom_serial_two_once_def eval_simps)
qed

lemma over_load:
  "fu_rom_load_file host_le True (file_of rom_serial_over) fu_rom_new = Fault"
proof -
  let ?rest = "bytes_of ''PPID'' @ replicate 956 0x41"
  have r: "rom_serial_over = nv_prefix @ ?rest" by (simp add: rom_serial_over_def)
  have "fu_rom_load_file host_le True (file_of rom_serial_over) fu_rom_new =
     then_do (blank_headers [nv_hdr rom_serial_over]) (\<lambda>hs.
     then_do (of_option (checksum_update_all [] hs)) (\<lambda>wip.
       Ret (Some VersionNotFound, nv_priv hs wip)))"
    unfolding r using nv_load[of ?rest host_le True] by (simp add: bytes_of_def)
  then show ?thesis
    by (simp add: over_blank)
qed

lemma over_loop: "fu_rom_blank_serial_numbers rom_serial_over 64 1024 0 = None"
proof (rule blank_loop_overrun)
  let ?rest = "bytes_of ''PPID'' @ replicate 956 0x41"
  show "length rom_serial_over < 64 + 1024" by (simp add: rom_serial_over_def eval_simps)
  show "64 + 0 \<le> length rom_serial_over" by (simp add: rom_serial_over_def eval_simps)
  show "\<forall>j. 0 \<le> j \<and> 64 + j < length rom_serial_over \<longrightarrow>
      \<not> boundary (rom_serial_over ! (64 + j))"
  proof (intro allI impI)
    fix j assume "0 \<le> j \<and> 64 + j < length rom_serial_over"
    then have j: "j < length ?rest" by (simp add: rom_serial_over_def eval_simps)
    then have "?rest ! j \<in> set ?rest" by (rule nth_mem)
    then have "\<not> boundary (?rest ! j)" by (auto simp: bytes_of_def boundary_def)
    then show "\<not> boundary (rom_serial_over ! (64 + j))"
      by (simp add: rom_serial_over_def nth_append nv_prefix_len)
  qed
qed

lemma overscan_len: "length rom_overscan = 1536" by (simp add: rom_overscan_def)

lemma overscan_scan: "found_data rom_overscan 1024 0 = None"
  by (subst found_data_window)
     (simp_all add: overscan_len buffer_sz_def, simp_all add: rom_overscan_def)

lemma overscan_load:
  "fu_rom_load_file host_le blank_ppid (file_of rom_overscan) fu_rom_new = Fault"
proof -
  let ?h = "hdr_new0\<lparr>rom_len := 1024, rom_data := [0x55, 0xaa, 0x02] @ replicate 1021 0\<rparr>"
  have h0: "fu_rom_pci_get_header rom_overscan 0 1536 = Some (Some ?h)"
    by (simp add: fu_rom_pci_get_header_def fu_rom_pci_parse_data_def rom_overscan_def mem_defs
        le16_def hdr_new0_def)
  have h1: "fu_rom_pci_get_header rom_overscan 1024 512 = Some None"
    by (simp add: fu_rom_pci_get_header_def fu_rom_get_hex_dump_def rom_overscan_def mem_defs)
  have "fu_rom_walk_loop rom_overscan 0 0 [] [] =
      fu_rom_walk_loop rom_overscan 0 ((0 + 1024) mod 4294967296)
        ([] @ [?h\<lparr>rom_offset := 0\<rparr>]) ([] @ [0])"
    by (rule walk_loop_next[where off=0]) (simp_all add: overscan_len h0)
  also have "\<dots> = fu_rom_walk_loop rom_overscan 0 1024 [?h\<lparr>rom_offset := 0\<rparr>] [0]"
    by simp
  also have "\<dots> = Some ([0] @ [1024],
      case found_data rom_overscan 1024 0 of None \<Rightarrow> None
      | Some False \<Rightarrow> Some [?h\<lparr>rom_offset := 0\<rparr>]
      | Some True \<Rightarrow> map_option (\<lambda>hdr. [?h\<lparr>rom_offset := 0\<rparr>] @ [hdr])
          (fake_header rom_overscan 1024))"
    by (rule walk_loop_junk) (simp_all add: overscan_len h1)
  finally have w: "fu_rom_walk_loop rom_overscan 0 0 [] [] = Some ([0, 1024], None)"
    by (simp add: overscan_scan)
  have i: "ifr_hdr_sz host_le rom_overscan = Some 0"
    by (simp add: ifr_hdr_sz_def rom_overscan_def mem_defs)
  have "fu_rom_load_file host_le blank_ppid (file_of rom_overscan) fu_rom_new =
      fu_rom_load_buffer host_le blank_ppid rom_overscan fu_rom_new"
    by (rule load_file_of) (simp_all add: overscan_len buffer_sz_def)
  then show ?thesis
    by (simp add: fu_rom_load_buffer_def i w fu_rom_new_def)
qed

lemma nvgi_len: "length rom_nvgi = 1024" by (simp add: rom_nvgi_def bytes_of_def)

lemma nvgi_probe: "fu_rom_find_version_nvidia nvgi_hdr = None"
  by (simp add: fu_rom_find_version_nvidia_def nvgi_hdr_def memcmp_eq_def mem_range_def
      bytes_of_def)

lemma nvgi_load:
  "fu_rom_load_file True blank_ppid (file_of rom_nvgi) fu_rom_new = Fault"
proof -
  have i: "ifr_hdr_sz True rom_nvgi = Some 768"
    by (simp add: ifr_hdr_sz_def rom_nvgi_def mem_defs GUINT16_FROM_BE_def)
  have h0: "fu_rom_pci_get_header rom_nvgi 768 256 = Some (Some (nvgi_hdr\<lparr>rom_offset := 0\<rparr>))"
    by (simp add: fu_rom_pci_get_header_def fu_rom_pci_parse_data_def rom_nvgi_def mem_defs
        le16_def hdr_new0_def nvgi_hdr_def)
  have "fu_rom_walk_loop rom_nvgi 768 0 [] [] =
      fu_rom_walk_loop rom_nvgi 768 ((0 + 256) mod 4294967296)
        ([] @ [nvgi_hdr\<lparr>rom_offset := 0\<rparr>\<lparr>rom_offset := 768\<rparr>]) ([] @ [768])"
    by (rule walk_loop_next[where off=768])
       (simp_all add: nvgi_len h0, simp add: nvgi_hdr_def)
  also have "\<dots> = Some ([768], Some [nvgi_hdr])"
    by (subst walk_loop_exit) (simp_all add: nvgi_len nvgi_hdr_def hdr_new0_def)
  finally have w: "fu_rom_walk_loop rom_nvgi 768 0 [] [] = Some ([768], Some [nvgi_hdr])" .
  have k: "detect_intel_hdr_sz rom_nvgi nvgi_hdr 768 = Some 768"
    "detect_kind rom_nvgi 768 FU_ROM_KIND_PCI = Some FU_ROM_KIND_NVIDIA"
    by (simp_all add: detect_intel_hdr_sz_def detect_kind_def nvgi_hdr_def rom_nvgi_def mem_defs)
  have "fu_rom_load_headers blank_ppid rom_nvgi 768 (fu_rom_new\<lparr>hdrs := [nvgi_hdr]\<rparr>) = Fault"
    by (simp add: fu_rom_load_headers_def Let_def k nvgi_len fu_rom_load_version_def nvgi_probe)
  moreover have "fu_rom_pci_print_header nvgi_hdr = Ret ()"
    by (rule print_header_quiet) (simp_all add: nvgi_hdr_def hdr_new0_def)
  moreover have "fu_rom_load_file True blank_ppid (file_of rom_nvgi) fu_rom_new =
      fu_rom_load_buffer True blank_ppid rom_nvgi fu_rom_new"
    by (rule load_file_of) (simp_all add: nvgi_len buffer_sz_def)
  ultimately show ?thesis
    by (simp add: fu_rom_load_buffer_def i w fu_rom_new_def)
qed

lemma pci_ppid_len: "length rom_pci_ppid = 1024" by (simp add: rom_pci_ppid_def bytes_of_def)

lemma pci_ppid_ifr: "ifr_hdr_sz host_le rom_pci_ppid = Some 0"
  by (simp add: ifr_hdr_sz_def rom_pci_ppid_def mem_defs)

lemma pci_ppid_decode: "fu_rom_pci_get_header rom_pci_ppid 0 1024 = Some (Some pci_ppid_hdr)"
  by (simp add: fu_rom_pci_get_header_def fu_rom_pci_parse_data_def rom_pci_ppid_def mem_defs
      pci_ppid_hdr_def le16_def hdr_new0_def)

lemma pci_ppid_walk:
  "fu_rom_walk_loop rom_pci_ppid 0 0 [] [] = Some ([0], Some [pci_ppid_hdr])"
proof -
  have "fu_rom_walk_loop rom_pci_ppid 0 0 [] [] =
      fu_rom_walk_loop rom_pci_ppid 0 ((0 + 1024) mod 4294967296)
        ([] @ [pci_ppid_hdr\<lparr>rom_offset := 0\<rparr>]) ([] @ [0])"
    by (rule walk_loop_next[where off=0])
       (simp_all add: pci_ppid_len pci_ppid_decode, simp add: pci_ppid_hdr_def)
  also have "\<dots> = Some ([0], Some [pci_ppid_hdr])"
    by (subst walk_loop_exit) (simp_all add: pci_ppid_len pci_ppid_hdr_def hdr_new0_def)
  finally show ?thesis .
qed

lemma pci_ppid_print: "fu_rom_pci_print_header pci_ppid_hdr = Ret ()"
  by (rule print_header_quiet) (simp_all add: pci_ppid_hdr_def hdr_new0_def)

lemma pci_ppid_headers:
  "fu_rom_load_headers b rom_pci_ppid 0 (fu_rom_new\<lparr>hdrs := [pci_ppid_hdr]\<rparr>) =
     Ret (Some VersionNotFound, pci_ppid_priv)"
  apply (simp add: fu_rom_load_headers_def Let_def detect_intel_hdr_sz_def detect_kind_def
     fu_rom_load_version_def fu_rom_find_version_pci_def blank_pass_skipped
     pci_ppid_hdr_def hdr_new0_def fu_rom_new_def pci_ppid_priv_def mem_defs pci_ppid_len)
  apply (simp add: rom_pci_ppid_def mem_defs)
  done

lemma pci_ppid_load:
  "fu_rom_load_file host_le b (file_of rom_pci_ppid) fu_rom_new =
     Ret (Some VersionNotFound, pci_ppid_priv)"
  by (simp add: load_file_of pci_ppid_len buffer_sz_def fu_rom_load_buffer_def pci_ppid_ifr
      fu_rom_new_def pci_ppid_walk pci_ppid_print
      pci_ppid_headers[unfolded fu_rom_new_def, simplified])

lemma pci_ppid_strstr: "fu_rom_pci_strstr pci_ppid_hdr PPID = Some (Some 64)"
proof -
  have "fu_rom_pci_strstr_loop rom_pci_ppid 0 PPID 1020 0 = Some (Some (0 + 64))"
  proof (rule strstr_loop_first)
    show "(0::nat) \<le> 64" "(64::nat) < 1020" by simp_all
    show "0 + 64 + length PPID \<le> length rom_pci_ppid"
      by (simp add: pci_ppid_len c_str_PPID)
    show "take (length PPID) (drop (0 + 64) rom_pci_ppid) = PPID"
      by (simp add: c_str_PPID rom_pci_ppid_def PPID_def bytes_of_def)
    have "hd PPID \<notin> set (take 64 rom_pci_ppid)"
      by (simp add: c_str_PPID rom_pci_ppid_def)
    then show "\<forall>j. 0 \<le> j \<and> j < 64 \<longrightarrow>
        take (length PPID) (drop (0 + j) rom_pci_ppid) \<noteq> PPID"
      using absent_byte_no_window[OF c_str_PPID(3), where k=64 and mem=rom_pci_ppid]
      by (simp add: pci_ppid_len)
  qed
  then show ?thesis
    by (simp add: fu_rom_pci_strstr_def c_str_PPID pci_ppid_hdr_def hdr_new0_def Let_def
        pci_ppid_len)
       (simp add: rom_pci_ppid_def)
qed

lemma pci_ppid_blank:
  "blank_header pci_ppid_hdr = Ret (pci_ppid_hdr\<lparr>rom_data := rom_pci_ppid_redacted\<rparr>)"
proof -
  define mem where "mem = take 64 (rom_data pci_ppid_hdr) @ replicate 8 0 @
      drop (64 + 8) (rom_data pci_ppid_hdr)"
  have rd: "rom_data pci_ppid_hdr = rom_pci_ppid" "rom_len pci_ppid_hdr = 1024"
    "data_len pci_ppid_hdr = 0"
    by (simp_all add: pci_ppid_hdr_def hdr_new0_def)
  have m: "mem = [0x55, 0xaa, 0x02] @ replicate 1021 0"
    by (simp add: mem_def rd rom_pci_ppid_def bytes_of_def replicate_add[symmetric])
  have "blank_header pci_ppid_hdr = Ret (pci_ppid_hdr\<lparr>rom_data :=
      mem[rom_len pci_ppid_hdr - 1 := mem ! (rom_len pci_ppid_hdr - 1) - sum_list mem]\<rparr>)"
  proof (rule blank_header_eval[where p=64 and k=8])
    show "fu_rom_pci_strstr pci_ppid_hdr PPID = Some (Some 64)" by (rule pci_ppid_strstr)
    show "8 < rom_len pci_ppid_hdr - data_len pci_ppid_hdr" by (simp add: rd)
    show "64 + 8 < length (rom_data pci_ppid_hdr)" by (simp add: rd pci_ppid_len)
    show "boundary (rom_data pci_ppid_hdr ! (64 + 8))"
      by (simp add: rd rom_pci_ppid_def bytes_of_def nth_append boundary_def)
    show "\<forall>j. j < 8 \<longrightarrow> \<not> boundary (rom_data pci_ppid_hdr ! (64 + j))"
    proof (intro allI impI)
      fix j :: nat assume j: "j < 8"
      then have "bytes_of ''PPID1234'' ! j \<in> set (bytes_of ''PPID1234'')"
        by (intro nth_mem) (simp add: bytes_of_def)
      then have "\<not> boundary (bytes_of ''PPID1234'' ! j)"
        by (auto simp: bytes_of_def boundary_def)
      with j show "\<not> boundary (rom_data pci_ppid_hdr ! (64 + j))"
        by (simp add: rd rom_pci_ppid_def nth_append) (simp add: bytes_of_def)
    qed
    show "length (rom_data pci_ppid_hdr) = rom_len pci_ppid_hdr" by (simp add: rd pci_ppid_len)
    show "rom_len pci_ppid_hdr < 4294967296" by (simp add: rd)
    show "mem = take 64 (rom_data pci_ppid_hdr) @ replicate 8 0 @
        drop (64 + 8) (rom_data pci_ppid_hdr)" by (rule mem_def)
    show "image_len pci_ppid_hdr = 0" "code_type pci_ppid_hdr \<noteq> 0x70"
      "18 \<le> length (reserved pci_ppid_hdr)"
      by (simp_all add: pci_ppid_hdr_def hdr_new0_def)
  qed
  moreover have "mem[1023 := mem ! 1023 - sum_list mem] = rom_pci_ppid_redacted"
    using replicate_update_last[of 1021 "0::u8" "0xff"]
    by (simp add: m rom_pci_ppid_redacted_def sum_list_replicate nth_append list_update_append
        u8_neg)
  ultimately show ?thesis by (simp add: rd)
qed

lemma pci_ppid_changed: "rom_pci_ppid_redacted \<noteq> rom_pci_ppid"
proof
  assume "rom_pci_ppid_redacted = rom_pci_ppid"
  then have "rom_pci_ppid_redacted ! 64 = rom_pci_ppid ! 64" by simp
  then show False
    by (simp add: rom_pci_ppid_redacted_def rom_pci_ppid_def bytes_of_def nth_append)
qed

lemma fake_only_len: "length rom_fake_only = 1024" by (simp add: rom_fake_only_def bytes_of_def)

lemma fake_only_ifr: "ifr_hdr_sz True rom_fake_only = Some 768"
  by (simp add: ifr_hdr_sz_def rom_fake_only_def mem_defs GUINT16_FROM_BE_def)

lemma fake_only_decode: "fu_rom_pci_get_header rom_fake_only 768 256 = Some None"
  by (simp add: fu_rom_pci_get_header_def fu_rom_get_hex_dump_def rom_fake_only_def mem_defs)

lemma fake_only_drop: "drop 768 rom_fake_only = [0x01] @ replicate 255 0"
  by (simp add: rom_fake_only_def bytes_of_def)

lemma fake_only_walk:
  "fu_rom_walk_loop rom_fake_only 768 0 [] [] = Some ([768], Some [fake_only_hdr])"
proof -
  have f: "found_data rom_fake_only 768 0 = Some True"
    by (subst found_data_window)
       (simp_all add: fake_only_len buffer_sz_def fake_only_drop)
  have h: "fake_header rom_fake_only 768 = Some fake_only_hdr"
    by (subst fake_header_eq)
       (simp_all add: fake_only_len buffer_sz_def fake_only_drop fake_only_hdr_def hdr_new0_def)
  have "fu_rom_walk_loop rom_fake_only 768 0 [] [] = Some ([] @ [768],
      case found_data rom_fake_only 768 0 of None \<Rightarrow> None | Some False \<Rightarrow> Some []
      | Some True \<Rightarrow> map_option (\<lambda>hdr. [] @ [hdr]) (fake_header rom_fake_only 768))"
    by (rule walk_loop_junk) (simp_all add: fake_only_len fake_only_decode)
  then show ?thesis by (simp add: f h)
qed

lemma fake_only_print: "fu_rom_pci_print_header fake_only_hdr = Ret ()"
  by (rule print_header_whole) (simp_all add: fake_only_hdr_def hdr_new0_def)

lemma fake_only_headers:
  "fu_rom_load_headers b rom_fake_only 768 (fu_rom_new\<lparr>hdrs := [fake_only_hdr]\<rparr>) =
     Ret (Some VersionNotFound, fake_only_priv)"
  apply (simp add: fu_rom_load_headers_def Let_def detect_intel_hdr_sz_def detect_kind_def
     fu_rom_load_version_def fu_rom_find_version_pci_def blank_pass_skipped
     fake_only_hdr_def hdr_new0_def fu_rom_new_def fake_only_priv_def mem_defs fake_only_len)
  apply (simp add: rom_fake_only_def mem_defs)
  done

lemma fake_only_load:
  "fu_rom_load_file True b (file_of rom_fake_only) fu_rom_new =
     Ret (Some VersionNotFound, fake_only_priv)"
  by (simp add: load_file_of fake_only_len buffer_sz_def fu_rom_load_buffer_def fake_only_ifr
      fu_rom_new_def fake_only_walk fake_only_print
      fake_only_headers[unfolded fu_rom_new_def, simplified])

text \<open>
  The printing of a header can loop forever and can read out of bounds, and so can the
  load: on \<open>rom_cert_cycle\<close> the loop over the certificate segments does not return, on
  \<open>rom_print_over\<close> the 15 bytes printed after the PCI data structure are at
  \<open>rom_data[0x1001b]\<close> of a \<open>rom_data\<close> of 512 bytes.
\<close>

lemma certificate_loop_next:
  assumes "fu_rom_pci_print_certificate_segment mem b sz off = Some n" "n \<noteq> 0"
  shows "fu_rom_pci_print_certificate_loop mem b sz off =
         fu_rom_pci_print_certificate_loop mem b sz n"
  using assms by (subst fu_rom_pci_print_certificate_loop.simps) simp

lemma certificate_loop_cycle:
  assumes "fu_rom_pci_print_certificate_segment mem b sz off = Some off" "off \<noteq> 0"
  shows "fu_rom_pci_print_certificate_loop mem b sz off = None"
proof (rule ccontr)
  assume "fu_rom_pci_print_certificate_loop mem b sz off \<noteq> None"
  then obtain y where y: "fu_rom_pci_print_certificate_loop mem b sz off = Some y" by auto
  have "\<not> (fu_rom_pci_print_certificate_segment mem b sz off = Some off \<and> off \<noteq> 0)"
    by (rule fu_rom_pci_print_certificate_loop.raw_induct[where
          P="\<lambda>mem b sz off y.
               \<not> (fu_rom_pci_print_certificate_segment mem b sz off = Some off \<and> off \<noteq> 0)",
          OF _ y])
       (fastforce split: if_splits)
  with assms show False by simp
qed

lemma cert_cycle_len: "length rom_cert_cycle = 1024"
  by (simp add: rom_cert_cycle_def bytes_of_def)

lemma cert_cycle_decode:
  "fu_rom_pci_get_header rom_cert_cycle 0 1024 = Some (Some cert_cycle_hdr)"
  by (simp add: fu_rom_pci_get_header_def fu_rom_pci_parse_data_def rom_cert_cycle_def mem_defs
      cert_cycle_hdr_def le16_def hdr_new0_def)

lemma cert_cycle_walk:
  "fu_rom_walk_loop rom_cert_cycle 0 0 [] [] = Some ([0], Some [cert_cycle_hdr])"
proof -
  have "fu_rom_walk_loop rom_cert_cycle 0 0 [] [] =
      fu_rom_walk_loop rom_cert_cycle 0 ((0 + 1024) mod 4294967296)
        ([] @ [cert_cycle_hdr\<lparr>rom_offset := 0\<rparr>]) ([] @ [0])"
    by (rule walk_loop_next[where off=0])
       (simp_all add: cert_cycle_len cert_cycle_decode, simp add: cert_cycle_hdr_def)
  also have "\<dots> = Some ([0], Some [cert_cycle_hdr])"
    by (subst walk_loop_exit) (simp_all add: cert_cycle_len cert_cycle_hdr_def hdr_new0_def)
  finally show ?thesis .
qed

lemma cert_cycle_segments:
  "fu_rom_pci_print_certificate_segment rom_cert_cycle 87 0 0 = Some 32"
  "fu_rom_pci_print_certificate_segment rom_cert_cycle 87 0 32 = Some 32"
  by (simp_all add: fu_rom_pci_print_certificate_segment_def fu_rom_get_hex_dump_def
      rom_cert_cycle_def mem_defs le16_def)

lemma cert_cycle_print: "fu_rom_pci_print_header cert_cycle_hdr = Diverges"
proof -
  have "fu_rom_pci_print_certificate_loop rom_cert_cycle 87 0 0 =
      fu_rom_pci_print_certificate_loop rom_cert_cycle 87 0 32"
    by (rule certificate_loop_next) (simp_all add: cert_cycle_segments)
  also have "\<dots> = None"
    by (rule certificate_loop_cycle) (simp_all add: cert_cycle_segments)
  finally have "fu_rom_pci_print_certificate_data rom_cert_cycle 60 0 = Diverges"
    by (simp add: fu_rom_pci_print_certificate_data_def fu_rom_get_hex_dump_def
        mem_range_def cert_cycle_len)
  moreover have "memcmp_eq rom_cert_cycle 60 (bytes_of ''ISBN'') = Some True"
    by (simp add: rom_cert_cycle_def mem_defs)
  ultimately show ?thesis
    by (simp add: fu_rom_pci_print_header_def cert_cycle_hdr_def hdr_new0_def
        fu_rom_get_hex_dump_def mem_range_def)
qed

lemma cert_cycle_load:
  "fu_rom_load_file host_le b (file_of rom_cert_cycle) fu_rom_new = Diverges"
proof -
  have i: "ifr_hdr_sz host_le rom_cert_cycle = Some 0"
    by (simp add: ifr_hdr_sz_def rom_cert_cycle_def mem_defs)
  have "fu_rom_load_file host_le b (file_of rom_cert_cycle) fu_rom_new =
      fu_rom_load_buffer host_le b rom_cert_cycle fu_rom_new"
    by (rule load_file_of) (simp_all add: cert_cycle_len buffer_sz_def)
  then show ?thesis
    by (simp add: fu_rom_load_buffer_def i cert_cycle_walk fu_rom_new_def cert_cycle_print)
qed

lemma print_over_len: "length rom_print_over = 1024"
  by (simp add: rom_print_over_def bytes_of_def)

lemma print_over_decode:
  "fu_rom_pci_get_header rom_print_over 0 1024 = Some (Some print_over_hdr)"
  "fu_rom_pci_get_header rom_print_over 512 512 = Some None"
  by (simp_all add: fu_rom_pci_get_header_def fu_rom_pci_parse_data_def rom_print_over_def
      mem_defs print_over_hdr_def le16_def hdr_new0_def fu_rom_get_hex_dump_def)

lemma print_over_walk:
  "fu_rom_walk_loop rom_print_over 0 0 [] [] = Some ([0, 512], Some [print_over_hdr])"
proof -
  have "fu_rom_walk_loop rom_print_over 0 0 [] [] =
      fu_rom_walk_loop rom_print_over 0 ((0 + 512) mod 4294967296)
        ([] @ [print_over_hdr\<lparr>rom_offset := 0\<rparr>]) ([] @ [0])"
    by (rule walk_loop_next[where off=0])
       (simp_all add: print_over_len print_over_decode, simp add: print_over_hdr_def)
  also have "\<dots> = fu_rom_walk_loop rom_print_over 0 512 [print_over_hdr] [0]"
    by (simp add: print_over_hdr_def hdr_new0_def)
  also have "\<dots> = Some ([0] @ [512],
      case found_data rom_print_over 512 0 of None \<Rightarrow> None
      | Some False \<Rightarrow> Some [print_over_hdr]
      | Some True \<Rightarrow> map_option (\<lambda>hdr. [print_over_hdr] @ [hdr])
          (fake_header rom_print_over 512))"
    by (rule walk_loop_junk) (simp_all add: print_over_len print_over_decode)
  also have "found_data rom_print_over 512 0 = Some False"
    by (subst found_data_window)
       (simp_all add: print_over_len buffer_sz_def, simp add: rom_print_over_def bytes_of_def)
  finally show ?thesis by simp
qed

lemma print_over_print: "fu_rom_pci_print_header print_over_hdr = Fault"
  by (simp add: fu_rom_pci_print_header_def print_over_hdr_def hdr_new0_def
      fu_rom_get_hex_dump_def mem_range_def bytes_of_def)

lemma print_over_load:
  "fu_rom_load_file host_le b (file_of rom_print_over) fu_rom_new = Fault"
proof -
  have i: "ifr_hdr_sz host_le rom_print_over = Some 0"
    by (simp add: ifr_hdr_sz_def rom_print_over_def mem_defs)
  have "fu_rom_load_file host_le b (file_of rom_print_over) fu_rom_new =
      fu_rom_load_buffer host_le b rom_print_over fu_rom_new"
    by (rule load_file_of) (simp_all add: print_over_len buffer_sz_def)
  then show ?thesis
    by (simp add: fu_rom_load_buffer_def i print_over_walk fu_rom_new_def print_over_print)
qed

section \<open>The claims\<close>

text \<open>
  Claim C4: on a header whose \<open>rom_len\<close> fits its \<open>guint32\<close> field, when the redaction
  step finds a \<open>"PPID"\<close> match, clears the field and subtracts the recomputed checksum
  from the last byte, the checksum of the header after that subtraction, the 8-bit sum
  of \<open>rom_data[0 .. rom_len)\<close>, is 0.
\<close>

theorem checksum_after_redaction:
  assumes "rom_len hdr < 4294967296"
    and "fu_rom_pci_strstr hdr PPID = Some (Some p)"
    and "blank_and_fix_checksum hdr p = Some hdr'"
  shows "fu_rom_pci_header_get_checksum hdr' = Some 0"
  using assms(3)
proof (cases rule: blank_and_fix_checksum_cases)
  case (1 mem len chk)
  from strstr_SomeD[OF assms(2)] have pos: "0 < rom_len hdr" by simp
  from last_index[OF pos assms(1)]
  have last: "(rom_len hdr + 4294967296 - 1) mod 4294967296 = rom_len hdr - 1" .
  from 1(2) have len: "rom_len hdr \<le> length mem" and chk: "chk = sum_list (take (rom_len hdr) mem)"
    by (auto simp: fu_rom_pci_header_get_checksum_def mem_range_def split: if_splits)
  let ?mem' = "mem[rom_len hdr - 1 := mem ! (rom_len hdr - 1) - chk]"
  have "sum_list (take (rom_len hdr) ?mem') =
      sum_list ((take (rom_len hdr) mem)[rom_len hdr - 1 := mem ! (rom_len hdr - 1) - chk])"
    by (simp add: take_update_swap)
  also have "\<dots> = sum_list (take (rom_len hdr) mem) - take (rom_len hdr) mem ! (rom_len hdr - 1)
      + (mem ! (rom_len hdr - 1) - chk)"
    using pos len by (intro sum_list_update_group) simp
  also have "\<dots> = 0" using pos chk by simp
  finally have "sum_list (take (rom_len hdr) ?mem') = 0" .
  with 1(4) last len show ?thesis
    by (simp add: fu_rom_pci_header_get_checksum_def mem_range_def)
qed

theorem checksum_after_redaction_witness:
  "rom_len (nv_hdr rom_serial_one) < 4294967296 \<and>
   fu_rom_pci_strstr (nv_hdr rom_serial_one) PPID = Some (Some 64) \<and>
   blank_and_fix_checksum (nv_hdr rom_serial_one) 64 = Some (nv_hdr rom_serial_one_redacted) \<and>
   blank_header (nv_hdr rom_serial_one) = Ret (nv_hdr rom_serial_one_redacted) \<and>
   fu_rom_pci_header_get_checksum (nv_hdr rom_serial_one_redacted) = Some 0"
proof -
  have a: "rom_len (nv_hdr rom_serial_one) < 4294967296" by (simp add: nv_hdr_fields)
  from one_blank one_strstr
  have b: "blank_and_fix_checksum (nv_hdr rom_serial_one) 64 =
      Some (nv_hdr rom_serial_one_redacted)"
    by (auto elim: blank_header_cases)
  from checksum_after_redaction[OF a one_strstr b] a one_strstr b one_blank
  show ?thesis by simp
qed

text \<open>
  Claim C7: when the first read delivers fewer than 1024 bytes, \<open>fu_rom_load_file\<close>
  fails with the error "Firmware too small" and leaves the ROM object as it was: no
  header, kind or version is set.
\<close>

theorem too_small:
  assumes "g_file_read_ok file"
    and "take 4 (g_file_get_path file) = ''/sys'' \<Longrightarrow>
           g_file_replace_ok file \<and> g_output_stream_write_ok file"
    and "g_input_stream_read (stream file) buffer_sz = (Some buffer, s)"
    and "length buffer < 1024"
  shows "fu_rom_load_file host_le blank_ppid file priv = Ret (Some TooSmall, priv)"
  using assms by (auto simp: fu_rom_load_file_def)

theorem too_small_witness:
  "g_file_read_ok (file_of (replicate 1023 0)) \<and>
   g_input_stream_read (stream (file_of (replicate 1023 0))) buffer_sz =
     (Some (replicate 1023 0), []) \<and>
   length (replicate 1023 (0::u8)) < 1024 \<and>
   fu_rom_load_file True True (file_of (replicate 1023 0)) fu_rom_new =
     Ret (Some TooSmall, fu_rom_new)"
proof -
  have a: "g_file_read_ok (file_of (replicate 1023 0))"
    and b: "take 4 (g_file_get_path (file_of (replicate 1023 0))) = ''/sys'' \<Longrightarrow>
      g_file_replace_ok (file_of (replicate 1023 0)) \<and>
      g_output_stream_write_ok (file_of (replicate 1023 0))"
    and c: "g_input_stream_read (stream (file_of (replicate 1023 0))) buffer_sz =
      (Some (replicate 1023 0), [])"
    and d: "length (replicate 1023 (0::u8)) < 1024"
    by (simp_all add: file_of_def buffer_sz_def)
  from too_small[OF a b c d, of True True fu_rom_new] a c d show ?thesis by simp
qed

text \<open>
  Claim C8: on every buffer that the loader can hold (at most \<open>buffer_sz\<close> bytes) the
  chain walk returns; the offsets at which it called the header decoder are strictly
  increasing, so none is decoded twice, and each is below the length of the buffer.
\<close>

theorem walk_terminates:
  assumes "length buffer \<le> buffer_sz"
  shows "\<exists>tr r. fu_rom_walk host_le buffer hs = Some (tr, r) \<and>
           sorted_wrt (<) tr \<and> distinct tr \<and> (\<forall>off\<in>set tr. off < length buffer)"
proof (cases "ifr_hdr_sz host_le buffer")
  case None
  then show ?thesis by (simp add: fu_rom_walk_def)
next
  case (Some hdr_sz)
  from ifr_hdr_sz_bound[OF Some] have "hdr_sz + 0 < 4294967296" by simp
  from walk_loop_total[OF assms this, of hs "[]"] Some show ?thesis
    by (auto simp: fu_rom_walk_def strict_sorted_iff)
qed

theorem walk_terminates_witness:
  "length rom_plain \<le> buffer_sz \<and>
   (\<exists>tr r. fu_rom_walk True rom_plain [] = Some (tr, r) \<and>
      sorted_wrt (<) tr \<and> distinct tr \<and> (\<forall>off\<in>set tr. off < length rom_plain))"
proof -
  have "length rom_plain \<le> buffer_sz" by (simp add: rom_plain_def buffer_sz_def)
  from this walk_terminates[OF this, of True "[]"] show ?thesis by simp
qed





text \<open>
  Claim C9: when loading with the flag to blank serial numbers returns with the kind PCI
  or Intel, loading without the flag returns the same error and the same ROM object:
  the same headers with the same \<open>rom_data\<close>, and the same bytes fed to the checksum.
  (On \<open>rom_pci_ppid\<close>, of kind PCI, the header holds \<open>"PPID1234"\<close>, which the
  redaction of that header would clear; the two loads leave it in place.)
\<close>

theorem blank_skipped_pci_intel:
  assumes "fu_rom_load_file host_le True file priv = Ret (e, p)"
    and "kind p = FU_ROM_KIND_PCI \<or> kind p = FU_ROM_KIND_INTEL"
  shows "fu_rom_load_file host_le False file priv = Ret (e, p)"
  using assms(1)
proof (cases rule: load_file_cases)
  case early
  then show ?thesis by simp
next
  case (buffer buffer)
  with assms have "fu_rom_load_buffer host_le True buffer priv = Ret (e, p)" by simp
  then have "fu_rom_load_buffer host_le False buffer priv = Ret (e, p)"
  proof (cases rule: load_buffer_cases)
    case (nothing hdr_sz tr)
    then show ?thesis by (simp add: fu_rom_load_buffer_def)
  next
    case (headers hdr_sz tr hs)
    from load_headers_blank_skipped[OF headers(5) assms(2)] headers(1,2,3,4)
    show ?thesis by (simp add: fu_rom_load_buffer_def)
  qed
  with buffer(1) show ?thesis by simp
qed

theorem blank_skipped_pci_intel_witness:
  "fu_rom_load_file True True (file_of rom_pci_ppid) fu_rom_new =
     Ret (Some VersionNotFound, pci_ppid_priv) \<and>
   (kind pci_ppid_priv = FU_ROM_KIND_PCI \<or> kind pci_ppid_priv = FU_ROM_KIND_INTEL) \<and>
   fu_rom_load_file True False (file_of rom_pci_ppid) fu_rom_new =
     Ret (Some VersionNotFound, pci_ppid_priv) \<and>
   hdrs pci_ppid_priv = [pci_ppid_hdr] \<and> rom_data pci_ppid_hdr = rom_pci_ppid \<and>
   fu_rom_pci_strstr pci_ppid_hdr PPID = Some (Some 64) \<and>
   blank_header pci_ppid_hdr = Ret (pci_ppid_hdr\<lparr>rom_data := rom_pci_ppid_redacted\<rparr>) \<and>
   rom_pci_ppid_redacted \<noteq> rom_pci_ppid"
proof -
  have k: "kind pci_ppid_priv = FU_ROM_KIND_PCI \<or> kind pci_ppid_priv = FU_ROM_KIND_INTEL"
    by (simp add: pci_ppid_priv_def)
  have h: "hdrs pci_ppid_priv = [pci_ppid_hdr]" "rom_data pci_ppid_hdr = rom_pci_ppid"
    by (simp_all add: pci_ppid_priv_def pci_ppid_hdr_def hdr_new0_def)
  from blank_skipped_pci_intel[OF pci_ppid_load[of True True] k] pci_ppid_load[of True True]
    k h pci_ppid_strstr pci_ppid_blank pci_ppid_changed
  show ?thesis by simp
qed

text \<open>
  Claim C10, as amended: \<open>fu_rom_load_file\<close> never returns the error "Failed to detect
  firmware kind". When it returns past the header check (with no error, with the version
  or the overflow error), at least one header is stored, decoded from the buffer or
  synthesized as the fallback header, and the kind is not unknown. (That a header was
  decoded does not hold: on \<open>rom_fake_only\<close> the decoder returns NULL at the one offset
  tried, the walker stores the fallback header alone, and the load goes on to classify
  the image as PCI.)
\<close>

theorem never_unknown_kind:
  assumes "fu_rom_load_file host_le blank_ppid file priv = Ret (e, p)"
  shows "e \<noteq> Some UnknownKind \<and>
         (e = None \<or> e = Some VersionNotFound \<or> e = Some CorruptOverflow \<longrightarrow>
            hdrs p \<noteq> [] \<and> kind p \<noteq> FU_ROM_KIND_UNKNOWN)"
  using assms
proof (cases rule: load_file_cases)
  case early
  then show ?thesis by auto
next
  case (buffer buffer)
  with assms have "fu_rom_load_buffer host_le blank_ppid buffer priv = Ret (e, p)" by simp
  then show ?thesis
  proof (cases rule: load_buffer_cases)
    case (nothing hdr_sz tr)
    then show ?thesis by simp
  next
    case (headers hdr_sz tr hs)
    from load_headers_result[OF headers(5)] headers(3) show ?thesis by auto
  qed
qed

theorem fallback_only_counterexample:
  "fu_rom_pci_get_header rom_fake_only 768 256 = Some None \<and>
   fu_rom_walk True rom_fake_only [] = Some ([768], Some [fake_only_hdr]) \<and>
   fu_rom_load_file True True (file_of rom_fake_only) fu_rom_new =
     Ret (Some VersionNotFound, fake_only_priv) \<and>
   kind fake_only_priv = FU_ROM_KIND_PCI \<and> hdrs fake_only_priv = [fake_only_hdr]"
  by (simp add: fake_only_decode fu_rom_walk_def fake_only_ifr fake_only_walk fake_only_load)
     (simp add: fake_only_priv_def)

theorem never_unknown_kind_witness:
  "fu_rom_load_file True True (file_of rom_plain) fu_rom_new =
     Ret (Some VersionNotFound, rom_plain_priv) \<and>
   Some VersionNotFound \<noteq> Some UnknownKind \<and>
   hdrs rom_plain_priv \<noteq> [] \<and> kind rom_plain_priv \<noteq> FU_ROM_KIND_UNKNOWN"
  using never_unknown_kind[OF plain_load[of True True]] plain_load[of True True]
  by simp

text \<open>
  Claim C3 (the code departs from it): \<open>find\<close> returns the first occurrence of the
  needle in \<open>raw[data_len .. rom_len)\<close>, an occurrence that ends exactly at \<open>rom_len\<close>
  included. The loop of \<open>fu_rom_pci_strstr\<close> stops one position early: on the header
  \<open>tail_hdr\<close>, decoded from \<open>rom_tail\<close>, whose last four bytes are \<open>"PPID"\<close>, it returns
  NULL where the specification's \<open>find\<close> returns the offset 508.
\<close>

theorem strstr_misses_last_position:
  "fu_rom_pci_get_header rom_tail 0 1024 = Some (Some tail_hdr) \<and>
   fu_rom_pci_strstr tail_hdr PPID = Some None \<and>
   spec_find tail_hdr PPID = Some 508"
  by (simp add: tail_decoded tail_strstr tail_spec_find)

text \<open>
  Claim C6 (the code departs from it): for a buffer that begins with \<open>"NVGI"\<close>, \<open>hdr_sz\<close>
  is the 16-bit big-endian value of the bytes at 0x15 and 0x16. The code applies
  \<open>GUINT16_FROM_BE\<close> to the single byte \<open>buffer[0x15]\<close>: on \<open>rom_ifr\<close>, where the two
  bytes are 01 02, it computes 0x0100 on a little-endian host and 0x0001 on a
  big-endian one, and the specification's value is 0x0102.
\<close>

theorem ifr_reads_one_byte:
  "ifr_hdr_sz True rom_ifr = Some 0x0100 \<and> ifr_hdr_sz False rom_ifr = Some 0x0001 \<and>
   spec_ifr_hdr_sz rom_ifr = 0x0102"
  by (simp add: ifr_le ifr_be) (simp add: spec_ifr_hdr_sz_def rom_ifr_def bytes_of_def nth_append)

text \<open>
  Claim C5, as amended: the redaction pass is idempotent on every image whose headers
  each have a single serial-number field (no further \<open>"PPID"\<close> match at or after the end
  of the bytes cleared for the first one): when the pass has run to its end, running
  it again leaves the ROM object, and so every header's \<open>rom_data\<close>, as it is.
\<close>

theorem redaction_idempotent:
  assumes "fu_rom_find_and_blank_serial_numbers priv = Ret priv'"
    and "\<forall>hdr\<in>set (hdrs priv). rom_len hdr < 4294967296 \<and> single_field hdr"
  shows "fu_rom_find_and_blank_serial_numbers priv' = Ret priv'"
proof (cases "kind priv = FU_ROM_KIND_PCI \<or> kind priv = FU_ROM_KIND_INTEL")
  case True
  with assms(1) show ?thesis
    by (auto simp: fu_rom_find_and_blank_serial_numbers_def)
next
  case False
  with assms(1) obtain hs where hs: "blank_headers (hdrs priv) = Ret hs"
    and p': "priv' = priv\<lparr>hdrs := hs\<rparr>"
    by (auto simp: fu_rom_find_and_blank_serial_numbers_def)
  from blank_headers_idem[OF hs assms(2)] False p' show ?thesis
    by (simp add: fu_rom_find_and_blank_serial_numbers_def)
qed

theorem redaction_twice_counterexample:
  "fu_rom_load_file True True (file_of rom_serial_two) fu_rom_new =
     Ret (Some VersionNotFound, nv_priv [nv_hdr rom_serial_two_once] rom_serial_two_once) \<and>
   fu_rom_find_and_blank_serial_numbers
       (nv_priv [nv_hdr rom_serial_two_once] rom_serial_two_once) =
     Ret (nv_priv [nv_hdr rom_serial_two_twice] rom_serial_two_once) \<and>
   rom_data (nv_hdr rom_serial_two_twice) \<noteq> rom_data (nv_hdr rom_serial_two_once)"
  by (simp add: two_load nv_pass two_blank2 nv_hdr_fields two_differs)

theorem redaction_idempotent_witness:
  "fu_rom_find_and_blank_serial_numbers (nv_priv [nv_hdr rom_serial_one] []) =
     Ret (nv_priv [nv_hdr rom_serial_one_redacted] []) \<and>
   rom_len (nv_hdr rom_serial_one) < 4294967296 \<and>
   single_field (nv_hdr rom_serial_one) \<and>
   fu_rom_find_and_blank_serial_numbers (nv_priv [nv_hdr rom_serial_one_redacted] []) =
     Ret (nv_priv [nv_hdr rom_serial_one_redacted] [])"
proof -
  have a: "fu_rom_find_and_blank_serial_numbers (nv_priv [nv_hdr rom_serial_one] []) =
      Ret (nv_priv [nv_hdr rom_serial_one_redacted] [])"
    by (simp add: nv_pass one_blank)
  have b: "rom_len (nv_hdr rom_serial_one) < 4294967296" by (simp add: nv_hdr_fields)
  have c: "\<forall>hdr\<in>set (hdrs (nv_priv [nv_hdr rom_serial_one] [])).
      rom_len hdr < 4294967296 \<and> single_field hdr"
    using b one_single by (simp add: nv_priv_def)
  from redaction_idempotent[OF a c] a b one_single show ?thesis by simp
qed

text \<open>
  Claim C1 (the code departs from it): no operation of \<open>fu_rom_load_file\<close> reads or
  writes outside the source buffer or a header's \<open>rom_data\<close>. Three images on which the
  load accesses memory out of bounds, each at an operation that the claim names:
  on \<open>rom_overscan\<close> the scan for junk after the failed decode at 1024 reads
  \<open>buffer[1536]\<close>, past the 1536 bytes read; on \<open>rom_nvgi\<close> (little-endian host) the
  Nvidia version probe compares 8 bytes at \<open>rom_data + 0x13d\<close> of a header whose
  \<open>rom_data\<close> has 256 bytes; on \<open>rom_serial_over\<close> the blanking loop, given the count
  \<open>rom_len - data_len\<close> from the match at 64, writes past the 1024 bytes of \<open>rom_data\<close>.
\<close>

theorem out_of_bounds_accesses:
  "found_data rom_overscan 1024 0 = None \<and>
   fu_rom_load_file True True (file_of rom_overscan) fu_rom_new = Fault \<and>
   fu_rom_find_version_nvidia nvgi_hdr = None \<and>
   fu_rom_load_file True True (file_of rom_nvgi) fu_rom_new = Fault \<and>
   fu_rom_blank_serial_numbers rom_serial_over 64 1024 0 = None \<and>
   fu_rom_load_file True True (file_of rom_serial_over) fu_rom_new = Fault"
  by (simp add: overscan_scan overscan_load nvgi_probe nvgi_load over_loop over_load)

end
